theory Spec2Isabelle
  imports Main "HOL-Library.AList" "HOL-Library.Sublist"
begin

section \<open>JavaScript values used by the two units\<close>

text \<open>
  A value of TypeScript type \<^verbatim>\<open>string | undefined\<close> is a \<open>string option\<close>, with
  \<open>None\<close> for \<^verbatim>\<open>undefined\<close>. An object used as a dictionary (\<^verbatim>\<open>Settings\<close>,
  \<^verbatim>\<open>process.env\<close>, \<^verbatim>\<open>NamespacedSettings\<close>) is an association list of its own
  properties in insertion order, which is the order \<^verbatim>\<open>Object.entries\<close> walks (keys
  that are array indices, which JavaScript enumerates first, are not set apart).
\<close>

type_synonym settings = "(string \<times> string option) list"

text \<open>\<^verbatim>\<open>!v\<close> is false exactly for a non-empty string.\<close>

fun truthy :: "string option \<Rightarrow> bool" where
  "truthy None = False"
| "truthy (Some s) = (s \<noteq> [])"

text \<open>
  The value an object holds at a key of its own, \<^verbatim>\<open>undefined\<close> when it has none. For
  the fixed key the gate reads, \<^verbatim>\<open>API_KEY\<close>, which names no built-in member of
  \<^verbatim>\<open>Object.prototype\<close>, this is \<^verbatim>\<open>process.env.API_KEY\<close>.
\<close>

definition obj_get :: "settings \<Rightarrow> string \<Rightarrow> string option" where
  "obj_get obj key = (case map_of obj key of None \<Rightarrow> None | Some v \<Rightarrow> v)"

text \<open>\<^verbatim>\<open>Object.prototype.hasOwnProperty.call(obj, key)\<close>\<close>

definition obj_has :: "('k \<times> 'v) list \<Rightarrow> 'k \<Rightarrow> bool" where
  "obj_has obj key = (key \<in> set (map fst obj))"

text \<open>
  \<^verbatim>\<open>obj[key] = v\<close> on \<^verbatim>\<open>process.env\<close> replaces the value of a key in place and
  appends a new key at the end: \<open>AList.update\<close>.
\<close>

subsection \<open>The prototype chain\<close>

text \<open>
  Plain objects (\<^verbatim>\<open>{}\<close>, \<^verbatim>\<open>{ ...settings }\<close>) and \<^verbatim>\<open>process.env\<close> inherit from
  \<^verbatim>\<open>Object.prototype\<close>: a read \<^verbatim>\<open>obj[key]\<close> of a key the object does not own, and
  the test \<^verbatim>\<open>key in obj\<close>, go on to the members of \<^verbatim>\<open>Object.prototype\<close>. A member is
  one of its built-in functions (\<open>Fn name\<close> is the function it holds at \<open>name\<close> when
  the program starts; at \<^verbatim>\<open>constructor\<close> that is the function \<^verbatim>\<open>Object\<close>) or a
  string that an assignment has put there. The key \<^verbatim>\<open>__proto__\<close> is an accessor: read
  through any of these objects it yields \<^verbatim>\<open>Object.prototype\<close> itself, and assigning a
  string to it does nothing.

  The realm is the part of the built-in objects that assignments of strings can change:
  the members of \<^verbatim>\<open>Object.prototype\<close>, and the properties written on built-in
  functions.
\<close>

datatype member = Fn string | Text string

datatype jsval = Undefined | Str string | Builtin string | ObjectPrototype

record realm =
  object_prototype :: "(string \<times> member) list"
  builtin_writes :: "((string \<times> string) \<times> string) list"

definition object_prototype_members :: "string list" where
  "object_prototype_members =
     [''constructor'', ''__defineGetter__'', ''__defineSetter__'', ''hasOwnProperty'',
      ''__lookupGetter__'', ''__lookupSetter__'', ''isPrototypeOf'', ''propertyIsEnumerable'',
      ''toString'', ''valueOf'', ''toLocaleString'']"

definition initial_realm :: realm where
  "initial_realm =
     \<lparr>object_prototype = map (\<lambda>n. (n, Fn n)) object_prototype_members, builtin_writes = []\<rparr>"

fun member_value :: "member \<Rightarrow> jsval" where
  "member_value (Fn f) = Builtin f"
| "member_value (Text s) = Str s"

definition of_setting :: "string option \<Rightarrow> jsval" where
  "of_setting v = (case v of None \<Rightarrow> Undefined | Some s \<Rightarrow> Str s)"

fun js_truthy :: "jsval \<Rightarrow> bool" where
  "js_truthy Undefined = False"
| "js_truthy (Str s) = (s \<noteq> [])"
| "js_truthy (Builtin f) = True"
| "js_truthy ObjectPrototype = True"

text \<open>\<^verbatim>\<open>a || b\<close>\<close>

definition js_or :: "jsval \<Rightarrow> jsval \<Rightarrow> jsval" where
  "js_or a b = (if js_truthy a then a else b)"

text \<open>\<^verbatim>\<open>key in Object.prototype\<close>, and what a read of \<open>key\<close> finds there.\<close>

definition inherits :: "realm \<Rightarrow> string \<Rightarrow> bool" where
  "inherits R key = (key = ''__proto__'' \<or> obj_has (object_prototype R) key)"

definition inherited :: "realm \<Rightarrow> string \<Rightarrow> jsval" where
  "inherited R key =
     (if key = ''__proto__'' then ObjectPrototype
      else case map_of (object_prototype R) key of None \<Rightarrow> Undefined | Some m \<Rightarrow> member_value m)"

text \<open>
  \<^verbatim>\<open>obj[key]\<close> and \<^verbatim>\<open>key in obj\<close> for a settings object: its own property first,
  then the chain.
\<close>

definition js_get :: "realm \<Rightarrow> settings \<Rightarrow> string \<Rightarrow> jsval" where
  "js_get R obj key =
     (case map_of obj key of None \<Rightarrow> inherited R key | Some v \<Rightarrow> of_setting v)"

definition js_in :: "realm \<Rightarrow> settings \<Rightarrow> string \<Rightarrow> bool" where
  "js_in R obj key = (obj_has obj key \<or> inherits R key)"

section \<open>The API-key gate\<close>

text \<open>
  A header of an inbound request is \<^verbatim>\<open>string | string[] | undefined\<close>. The exchange is
  the state the middleware works on: the request, the response sink and the number of
  times the continuation has been invoked. A fresh response sink has status 200 and
  nothing sent.
\<close>

datatype header_value = Single string | Multiple "string list"

record request =
  headers :: "string \<Rightarrow> header_value option"

record response =
  statusCode :: nat
  sent :: "string option"

record exchange =
  req :: request
  res :: response
  nextCalls :: nat

definition status :: "nat \<Rightarrow> response \<Rightarrow> response" where
  "status code r = r\<lparr>statusCode := code\<rparr>"

definition send :: "string \<Rightarrow> response \<Rightarrow> response" where
  "send body r = r\<lparr>sent := Some body\<rparr>"

definition call_next :: "exchange \<Rightarrow> exchange" where
  "call_next x = x\<lparr>nextCalls := Suc (nextCalls x)\<rparr>"

text \<open>\<^verbatim>\<open>!apiKey\<close>: true for a missing header and for the empty string; an array is truthy.\<close>

fun header_falsy :: "header_value option \<Rightarrow> bool" where
  "header_falsy None = True"
| "header_falsy (Some (Single s)) = (s = [])"
| "header_falsy (Some (Multiple ss)) = False"

text \<open>
  \<^verbatim>\<open>apiKey !== process.env.API_KEY\<close>: strict inequality of a header with a value that is
  a string or undefined. An array is never identical to either.
\<close>

fun strict_ne :: "header_value option \<Rightarrow> string option \<Rightarrow> bool" where
  "strict_ne None expected = (expected \<noteq> None)"
| "strict_ne (Some (Single s)) expected = (expected \<noteq> Some s)"
| "strict_ne (Some (Multiple ss)) expected = True"

text \<open>
  \<^verbatim>\<open>
  const apiKey = req.headers["x-api-key"];
  if (!apiKey || apiKey !== process.env.API_KEY) {
      return res.status(401).send("Unauthorized");
  }
  next();
  \<close>
  The first argument is \<^verbatim>\<open>process.env\<close> as it is when the request arrives.
\<close>

definition authMiddleware :: "settings \<Rightarrow> exchange \<Rightarrow> exchange" where
  "authMiddleware env x =
     (let apiKey = headers (req x) ''x-api-key'' in
      if header_falsy apiKey \<or> strict_ne apiKey (obj_get env ''API_KEY'')
      then x\<lparr>res := send ''Unauthorized'' (status 401 (res x))\<rparr>
      else call_next x)"

text \<open>The one rejection the gate issues, and what passing a request on means.\<close>

definition unauthorized :: "exchange \<Rightarrow> exchange" where
  "unauthorized x = x\<lparr>res := (res x)\<lparr>statusCode := 401, sent := Some ''Unauthorized''\<rparr>\<rparr>"

definition header_equals_expected :: "settings \<Rightarrow> exchange \<Rightarrow> bool" where
  "header_equals_expected env x =
     (case headers (req x) ''x-api-key'' of
        Some (Single v) \<Rightarrow> obj_get env ''API_KEY'' = Some v
      | _ \<Rightarrow> False)"

definition header_nonempty :: "exchange \<Rightarrow> bool" where
  "header_nonempty x =
     (case headers (req x) ''x-api-key'' of
        Some (Single v) \<Rightarrow> v \<noteq> []
      | _ \<Rightarrow> False)"

text \<open>
  The gate once more, with the three calls it makes left open: \<^verbatim>\<open>res.status\<close>,
  \<^verbatim>\<open>res.send\<close> and \<^verbatim>\<open>next\<close> belong to the framework and to the rest of the chain,
  and each of them may raise an exception instead of returning. The gate has no
  \<^verbatim>\<open>try\<close>: an exception of a call ends it.
\<close>

datatype thrown = Thrown string

record calls =
  res_status :: "nat \<Rightarrow> response \<Rightarrow> thrown + response"
  res_send :: "string \<Rightarrow> response \<Rightarrow> thrown + response"
  next_call :: "exchange \<Rightarrow> thrown + exchange"

definition authMiddleware_on :: "calls \<Rightarrow> settings \<Rightarrow> exchange \<Rightarrow> thrown + exchange" where
  "authMiddleware_on c env x =
     (let apiKey = headers (req x) ''x-api-key'' in
      if header_falsy apiKey \<or> strict_ne apiKey (obj_get env ''API_KEY'')
      then (case res_status c 401 (res x) of
              Inl e \<Rightarrow> Inl e
            | Inr r \<Rightarrow>
                (case res_send c ''Unauthorized'' r of
                   Inl e \<Rightarrow> Inl e
                 | Inr r' \<Rightarrow> Inr (x\<lparr>res := r'\<rparr>)))
      else next_call c x)"

text \<open>The calls that always return: the sink and the continuation of \<open>authMiddleware\<close>.\<close>

definition returning_calls :: calls where
  "returning_calls =
     \<lparr>res_status = (\<lambda>code r. Inr (status code r)),
      res_send = (\<lambda>body r. Inr (send body r)),
      next_call = (\<lambda>x. Inr (call_next x))\<rparr>"

section \<open>Strings and paths of the platform\<close>

text \<open>
  \<^verbatim>\<open>s.split(c)\<close> for a one-character separator: never the empty list, and
  \<^verbatim>\<open>"".split(".")\<close> is \<^verbatim>\<open>[""]\<close>.
\<close>

fun split_on :: "char \<Rightarrow> string \<Rightarrow> string list" where
  "split_on c [] = [[]]"
| "split_on c (x # xs) =
     (if x = c then [] # split_on c xs
      else (case split_on c xs of [] \<Rightarrow> [[x]] | w # ws \<Rightarrow> (x # w) # ws))"

text \<open>\<^verbatim>\<open>xs.join(sep)\<close>\<close>

fun join_with :: "string \<Rightarrow> string list \<Rightarrow> string" where
  "join_with sep [] = []"
| "join_with sep [x] = x"
| "join_with sep (x # y # ys) = x @ sep @ join_with sep (y # ys)"

text \<open>
  The path functions are those of Node's \<^verbatim>\<open>path\<close> module on a POSIX system.
  \<^verbatim>\<open>path.parse(p).root\<close> is \<^verbatim>\<open>"/"\<close> for a path that starts with a separator and
  the empty string for every other path.
\<close>

definition parse_root :: "string \<Rightarrow> string" where
  "parse_root p = (if p \<noteq> [] \<and> hd p = CHR ''/'' then ''/'' else [])"

text \<open>
  \<^verbatim>\<open>path.dirname(p)\<close> scans the characters from the last one down to index 1: it
  skips trailing separators, then the last segment, and cuts the path at the separator
  it meets next. With no such separator the result is \<^verbatim>\<open>"/"\<close> for a rooted path and
  \<^verbatim>\<open>"."\<close> otherwise; in particular \<^verbatim>\<open>dirname(".")\<close> is \<^verbatim>\<open>"."\<close>.
\<close>

definition dirname :: "string \<Rightarrow> string" where
  "dirname p =
     (if p = [] then ''.''
      else
        let hasRoot = (hd p = CHR ''/'');
            scanned = dropWhile (\<lambda>c. c \<noteq> CHR ''/'') (dropWhile (\<lambda>c. c = CHR ''/'') (rev (tl p)));
            endIndex = length scanned
        in if scanned = [] then (if hasRoot then ''/'' else ''.'')
           else if hasRoot \<and> endIndex = 1 then ''//''
           else take endIndex p)"

text \<open>
  \<^verbatim>\<open>path.normalize\<close>: empty and \<^verbatim>\<open>"."\<close> segments are dropped, \<^verbatim>\<open>".."\<close> removes the
  segment before it (and is kept at the front of a relative path, dropped at the root).
\<close>

fun normalize_segment :: "bool \<Rightarrow> string list \<Rightarrow> string \<Rightarrow> string list" where
  "normalize_segment allowAboveRoot acc seg =
     (if seg = [] \<or> seg = ''.'' then acc
      else if seg = ''..'' then
        (if acc \<noteq> [] \<and> last acc \<noteq> ''..'' then butlast acc
         else if allowAboveRoot then acc @ [''..'']
         else acc)
      else acc @ [seg])"

definition normalizeString :: "string \<Rightarrow> bool \<Rightarrow> string" where
  "normalizeString p allowAboveRoot =
     join_with ''/'' (foldl (normalize_segment allowAboveRoot) [] (split_on CHR ''/'' p))"

definition normalize :: "string \<Rightarrow> string" where
  "normalize p =
     (if p = [] then ''.''
      else
        let isAbsolute = (hd p = CHR ''/'');
            trailingSeparator = (last p = CHR ''/'');
            q = normalizeString p (\<not> isAbsolute)
        in if q = [] then (if isAbsolute then ''/'' else if trailingSeparator then ''./'' else ''.'')
           else (if isAbsolute then ''/'' else []) @ q @ (if trailingSeparator then ''/'' else []))"

text \<open>\<^verbatim>\<open>path.join(a, b)\<close>: the non-empty arguments joined by a separator, normalized.\<close>

definition path_join :: "string \<Rightarrow> string \<Rightarrow> string" where
  "path_join a b =
     (let parts = filter (\<lambda>s. s \<noteq> []) [a, b]
      in if parts = [] then ''.'' else normalize (join_with ''/'' parts))"

section \<open>The settings loader\<close>

text \<open>
  What the surroundings provide and the code never writes: the \<^verbatim>\<open>window\<close> that the
  global object owns (none on a host), the working directory \<^verbatim>\<open>process.cwd()\<close>, the
  file system, and the library functions the loader calls without depending on what
  they compute: the line parser of \<^verbatim>\<open>dotenv\<close>, and \<^verbatim>\<open>JSON.stringify\<close> on an object
  and on a string.
\<close>

datatype window_obj = Window (document_defined: bool)

datatype fs_entry = File string | Directory

record host =
  window :: "window_obj option"
  cwd :: string
  files :: "string \<Rightarrow> fs_entry option"
  dotenv_parse :: "string \<Rightarrow> (string \<times> string) list"
  json_stringify :: "settings \<Rightarrow> string"
  json_string :: "string \<Rightarrow> string"

text \<open>
  What the code writes: the module variable \<^verbatim>\<open>environmentSettings\<close>,
  \<^verbatim>\<open>process.env\<close>, and, through the namespacing loop, the realm.
\<close>

record loader =
  environmentSettings :: settings
  process_env :: settings
  realm :: realm

text \<open>
  \<^verbatim>\<open>typeof window !== "undefined" && typeof window.document !== "undefined"\<close>
\<close>

definition isBrowser :: "host \<Rightarrow> bool" where
  "isBrowser h = (case window h of None \<Rightarrow> False | Some w \<Rightarrow> document_defined w)"

text \<open>
  A global name that the global object does not own is looked up along its prototype
  chain, which ends in \<^verbatim>\<open>Object.prototype\<close>, and so is the property \<^verbatim>\<open>document\<close> of
  whatever \<^verbatim>\<open>window\<close> is: once members \<^verbatim>\<open>window\<close> and \<^verbatim>\<open>document\<close> are on
  \<^verbatim>\<open>Object.prototype\<close>, the two \<^verbatim>\<open>typeof\<close> tests find them. \<open>globals R h\<close> is the
  host with the \<^verbatim>\<open>window\<close> that the code sees in the realm \<open>R\<close>.
\<close>

definition globals :: "realm \<Rightarrow> host \<Rightarrow> host" where
  "globals R h =
     h\<lparr>window :=
         (case window h of
            Some w \<Rightarrow> Some (Window (document_defined w \<or> inherits R ''document''))
          | None \<Rightarrow>
              if inherits R ''window'' then Some (Window (inherits R ''document'')) else None)\<rparr>"

definition existsSync :: "host \<Rightarrow> string \<Rightarrow> bool" where
  "existsSync h p = (files h p \<noteq> None)"

text \<open>
  The loop of \<^verbatim>\<open>findNearestEnvFile\<close> and the check of the root after it. The outer
  \<open>option\<close> is \<open>None\<close> when the loop does not end; the inner one is the result
  \<^verbatim>\<open>string | null\<close>.
  \<^verbatim>\<open>
  while (currentDir !== path.parse(currentDir).root) {
      const envPath = path.join(currentDir, ".env");
      if (fs.existsSync(envPath)) { return envPath; }
      currentDir = path.dirname(currentDir);
  }
  const rootEnvPath = path.join(path.parse(currentDir).root, ".env");
  return fs.existsSync(rootEnvPath) ? rootEnvPath : null;
  \<close>
\<close>

partial_function (option) search_up :: "host \<Rightarrow> string \<Rightarrow> string option option" where
  "search_up h currentDir =
     (if currentDir \<noteq> parse_root currentDir then
        (let envPath = path_join currentDir ''.env''
         in if existsSync h envPath then Some (Some envPath)
            else search_up h (dirname currentDir))
      else
        (let rootEnvPath = path_join (parse_root currentDir) ''.env''
         in Some (if existsSync h rootEnvPath then Some rootEnvPath else None)))"

definition findNearestEnvFile :: "host \<Rightarrow> string \<Rightarrow> string option option" where
  "findNearestEnvFile h startDir = (if isBrowser h then Some None else search_up h startDir)"

text \<open>\<^verbatim>\<open>environmentSettings = { ...settings }\<close>: a new object with the same entries.\<close>

definition configureSettings :: "settings \<Rightarrow> loader \<Rightarrow> loader" where
  "configureSettings s st = st\<lparr>environmentSettings := s\<rparr>"

subsection \<open>The namespacing loop\<close>

text \<open>
  The module is strict code, so an assignment that cannot be carried out raises a
  \<^verbatim>\<open>TypeError\<close>. The object \<^verbatim>\<open>namespaced\<close> starts as \<^verbatim>\<open>{}\<close>; what it holds at a
  namespace is a plain object the loop created, or a member of \<^verbatim>\<open>Object.prototype\<close>
  that the loop took over from the chain.
\<close>

datatype error = TypeError

datatype ns_value = Plain settings | Taken member

type_synonym namespaced_settings = "(string \<times> ns_value) list"

text \<open>
  What \<^verbatim>\<open>namespaced[namespace]\<close> evaluates to: an own property, else
  \<^verbatim>\<open>Object.prototype\<close> for the key \<^verbatim>\<open>__proto__\<close>, else the member of
  \<^verbatim>\<open>Object.prototype\<close> of that name, else \<^verbatim>\<open>undefined\<close>.
\<close>

datatype ns_target = Missing | ThePrototype | Held ns_value

definition ns_read :: "realm \<Rightarrow> namespaced_settings \<Rightarrow> string \<Rightarrow> ns_target" where
  "ns_read R namespaced namespace =
     (case map_of namespaced namespace of
        Some v \<Rightarrow> Held v
      | None \<Rightarrow>
          if namespace = ''__proto__'' then ThePrototype
          else (case map_of (object_prototype R) namespace of
                  None \<Rightarrow> Missing
                | Some m \<Rightarrow> Held (Taken m)))"

fun target_truthy :: "ns_target \<Rightarrow> bool" where
  "target_truthy Missing = False"
| "target_truthy ThePrototype = True"
| "target_truthy (Held (Plain s)) = True"
| "target_truthy (Held (Taken m)) = js_truthy (member_value m)"

text \<open>
  \<^verbatim>\<open>namespaced[namespace] = namespaced[namespace] || {}\<close>: what the read finds is
  kept if it is truthy, a new empty object is taken otherwise, and the result becomes an
  own property. For the key \<^verbatim>\<open>__proto__\<close>, not owned, the read finds
  \<^verbatim>\<open>Object.prototype\<close> and the assignment runs the accessor, which sets the prototype
  that \<^verbatim>\<open>namespaced\<close> already has and creates no property.
\<close>

definition ns_ensure :: "realm \<Rightarrow> namespaced_settings \<Rightarrow> string \<Rightarrow> namespaced_settings" where
  "ns_ensure R namespaced namespace =
     (case ns_read R namespaced namespace of
        ThePrototype \<Rightarrow> namespaced
      | Missing \<Rightarrow> AList.update namespace (Plain []) namespaced
      | Held v \<Rightarrow>
          AList.update namespace (if target_truthy (Held v) then v else Plain []) namespaced)"

text \<open>The string that a truthy value is.\<close>

definition text_of :: "string option \<Rightarrow> string" where
  "text_of value = (case value of None \<Rightarrow> [] | Some s \<Rightarrow> s)"

text \<open>
  A built-in function does not take an assignment to its read-only properties
  \<^verbatim>\<open>name\<close> and \<^verbatim>\<open>length\<close> (and \<^verbatim>\<open>prototype\<close> for \<^verbatim>\<open>Object\<close>), nor to
  \<^verbatim>\<open>caller\<close> and \<^verbatim>\<open>arguments\<close>, whose inherited accessors raise.
\<close>

definition read_only :: "string \<Rightarrow> string \<Rightarrow> bool" where
  "read_only f p =
     (p \<in> set [''name'', ''length'', ''caller'', ''arguments''] \<or>
      (f = ''constructor'' \<and> p = ''prototype''))"

text \<open>
  \<^verbatim>\<open>target[settingKey] = value\<close> for a string \<open>value\<close>, where \<open>target\<close> is what
  \<^verbatim>\<open>namespaced[namespace]\<close> evaluates to:
  \<^item> a plain object takes the property, unless the key is \<^verbatim>\<open>__proto__\<close>, whose
    accessor ignores a string;
  \<^item> \<^verbatim>\<open>Object.prototype\<close> takes it as a member, for every object of the program;
  \<^item> a built-in function takes it unless the property is read-only;
  \<^item> a string is a primitive and takes no property: \<^verbatim>\<open>TypeError\<close>, except for
    \<^verbatim>\<open>__proto__\<close>, where the accessor runs and does nothing;
  \<^item> \<^verbatim>\<open>undefined\<close> has no properties: \<^verbatim>\<open>TypeError\<close>.
\<close>

fun assign ::
  "realm \<Rightarrow> namespaced_settings \<Rightarrow> string \<Rightarrow> ns_target \<Rightarrow> string \<Rightarrow> string option \<Rightarrow>
   (error + namespaced_settings) \<times> realm" where
  "assign R namespaced namespace (Held (Plain inner)) settingKey value =
     (if settingKey = ''__proto__'' then (Inr namespaced, R)
      else (Inr (AList.update namespace (Plain (AList.update settingKey value inner)) namespaced), R))"
| "assign R namespaced namespace ThePrototype settingKey value =
     (if settingKey = ''__proto__'' then (Inr namespaced, R)
      else (Inr namespaced,
            R\<lparr>object_prototype :=
                AList.update settingKey (Text (text_of value)) (object_prototype R)\<rparr>))"
| "assign R namespaced namespace (Held (Taken (Fn f))) settingKey value =
     (if settingKey = ''__proto__'' then (Inr namespaced, R)
      else if read_only f settingKey then (Inl TypeError, R)
      else (Inr namespaced,
            R\<lparr>builtin_writes :=
                AList.update (f, settingKey) (text_of value) (builtin_writes R)\<rparr>))"
| "assign R namespaced namespace (Held (Taken (Text s))) settingKey value =
     (if settingKey = ''__proto__'' then (Inr namespaced, R) else (Inl TypeError, R))"
| "assign R namespaced namespace Missing settingKey value = (Inl TypeError, R)"

text \<open>
  One round of the loop.
  \<^verbatim>\<open>
  for (const [key, value] of Object.entries(env)) {
      if (!value) continue;
      const [namespace, ...rest] = key.split(".");
      if (!namespace || rest.length === 0) continue;
      const settingKey = rest.join(".");
      namespaced[namespace] = namespaced[namespace] || {};
      namespaced[namespace][settingKey] = value;
  }
  \<close>
\<close>

fun namespace_entry ::
  "realm \<Rightarrow> namespaced_settings \<Rightarrow> string \<times> string option \<Rightarrow>
   (error + namespaced_settings) \<times> realm" where
  "namespace_entry R namespaced (key, value) =
     (if \<not> truthy value then (Inr namespaced, R)
      else
        (case split_on CHR ''.'' key of
           [] \<Rightarrow> (Inr namespaced, R)
         | namespace # rest \<Rightarrow>
             if namespace = [] \<or> length rest = 0 then (Inr namespaced, R)
             else
               let settingKey = join_with ''.'' rest;
                   namespaced1 = ns_ensure R namespaced namespace
               in assign R namespaced1 namespace (ns_read R namespaced1 namespace)
                    settingKey value))"

text \<open>The loop: it ends at the first round that raises, with the realm as it is then.\<close>

fun namespace_entries ::
  "realm \<Rightarrow> namespaced_settings \<Rightarrow> settings \<Rightarrow> (error + namespaced_settings) \<times> realm" where
  "namespace_entries R namespaced [] = (Inr namespaced, R)"
| "namespace_entries R namespaced (e # env) =
     (case namespace_entry R namespaced e of
        (Inl err, R') \<Rightarrow> (Inl err, R')
      | (Inr namespaced', R') \<Rightarrow> namespace_entries R' namespaced' env)"

text \<open>
  \<^verbatim>\<open>Object.entries\<close> is a property of the function \<^verbatim>\<open>Object\<close>, which the loop can
  reach as \<^verbatim>\<open>namespaced["constructor"]\<close>: once a string has been written over it, a call
  \<^verbatim>\<open>Object.entries(...)\<close> raises a \<^verbatim>\<open>TypeError\<close>.
\<close>

definition entries_overwritten :: "realm \<Rightarrow> bool" where
  "entries_overwritten R = (map_of (builtin_writes R) (''constructor'', ''entries'') \<noteq> None)"

definition parseNamespacedSettings ::
  "realm \<Rightarrow> settings \<Rightarrow> (error + namespaced_settings) \<times> realm" where
  "parseNamespacedSettings R env =
     (if entries_overwritten R then (Inl TypeError, R) else namespace_entries R [] env)"

subsection \<open>Loading\<close>

text \<open>
  \<^verbatim>\<open>config(options)\<close> of \<^verbatim>\<open>dotenv\<close>: it reads the file at \<^verbatim>\<open>options.path\<close>, by default
  \<^verbatim>\<open>.env\<close> in the working directory, and sets every parsed key that
  \<^verbatim>\<open>process.env\<close> does not have yet; a file that cannot be read gives a result with
  \<^verbatim>\<open>error\<close> set and leaves \<^verbatim>\<open>process.env\<close> alone. The first component is whether
  \<^verbatim>\<open>result.error\<close> is set.
\<close>

definition populate :: "settings \<Rightarrow> (string \<times> string) list \<Rightarrow> settings" where
  "populate env parsed =
     foldl (\<lambda>e (k, v). if obj_has e k then e else AList.update k (Some v) e) env parsed"

definition config :: "host \<Rightarrow> string option \<Rightarrow> settings \<Rightarrow> bool \<times> settings" where
  "config h path env =
     (let file = (case path of None \<Rightarrow> path_join (cwd h) ''.env'' | Some p \<Rightarrow> p)
      in case files h file of
           Some (File content) \<Rightarrow> (False, populate env (dotenv_parse h content))
         | _ \<Rightarrow> (True, env))"

text \<open>
  What \<^verbatim>\<open>process.env\<close> receives for \<^verbatim>\<open>JSON.stringify(settings)\<close>: the serialized
  object or string; for a function \<^verbatim>\<open>JSON.stringify\<close> returns \<^verbatim>\<open>undefined\<close>, which
  \<^verbatim>\<open>process.env\<close> stores as the string \<^verbatim>\<open>undefined\<close>.
\<close>

fun stringified :: "host \<Rightarrow> ns_value \<Rightarrow> string" where
  "stringified h (Plain s) = json_stringify h s"
| "stringified h (Taken (Text s)) = json_string h s"
| "stringified h (Taken (Fn f)) = ''undefined''"

text \<open>
  \<^verbatim>\<open>
  Object.entries(namespacedSettings).forEach(([namespace, settings]) => {
      process.env[`__namespaced_${namespace}`] = JSON.stringify(settings);
  });
  \<close>
\<close>

definition attach_namespaced :: "host \<Rightarrow> namespaced_settings \<Rightarrow> settings \<Rightarrow> settings" where
  "attach_namespaced h namespacedSettings env =
     foldl (\<lambda>e (namespace, settings).
              AList.update (''__namespaced_'' @ namespace) (Some (stringified h settings)) e)
       env namespacedSettings"

text \<open>
  \<^verbatim>\<open>loadEnvConfig\<close> returns the settings or raises, and leaves the state changed;
  \<open>None\<close> when the search for the file does not end. Every call of \<^verbatim>\<open>isBrowser\<close>
  sees the globals of the realm as it is at the call. \<open>loaded_env\<close> is
  \<^verbatim>\<open>process.env\<close> after the call of \<^verbatim>\<open>config\<close>, given what the search returned;
  \<^verbatim>\<open>envPath ? { path: envPath } : {}\<close> passes a path only when it is a non-empty string.
\<close>

definition loaded_env :: "host \<Rightarrow> string option \<Rightarrow> settings \<Rightarrow> settings" where
  "loaded_env h envPath env = snd (config h (if truthy envPath then envPath else None) env)"

definition loadEnvConfig :: "host \<Rightarrow> loader \<Rightarrow> ((error + settings) \<times> loader) option" where
  "loadEnvConfig h st =
     (if isBrowser (globals (realm st) h) then Some (Inr (environmentSettings st), st)
      else
        (case findNearestEnvFile (globals (realm st) h) (cwd h) of
           None \<Rightarrow> None
         | Some envPath \<Rightarrow>
             let env1 = loaded_env h envPath (process_env st)
             in (case parseNamespacedSettings (realm st) env1 of
                   (Inl err, R) \<Rightarrow> Some (Inl err, st\<lparr>process_env := env1, realm := R\<rparr>)
                 | (Inr namespacedSettings, R) \<Rightarrow>
                     if entries_overwritten R
                     then Some (Inl TypeError, st\<lparr>process_env := env1, realm := R\<rparr>)
                     else
                       let env2 = attach_namespaced h namespacedSettings env1
                       in Some (Inr env2, st\<lparr>process_env := env2, realm := R\<rparr>))))"

subsection \<open>Point lookups\<close>

text \<open>
  \<^verbatim>\<open>
  if (isBrowser()) { return environmentSettings[key] || defaultValue; }
  return process.env[key] || defaultValue;
  \<close>
\<close>

definition getEnvVariable :: "host \<Rightarrow> loader \<Rightarrow> string \<Rightarrow> string option \<Rightarrow> jsval" where
  "getEnvVariable h st key defaultValue =
     (if isBrowser (globals (realm st) h)
      then js_or (js_get (realm st) (environmentSettings st) key) (of_setting defaultValue)
      else js_or (js_get (realm st) (process_env st) key) (of_setting defaultValue))"

text \<open>
  \<^verbatim>\<open>
  if (isBrowser()) { return key in environmentSettings; }
  return key in process.env;
  \<close>
\<close>

definition hasEnvVariable :: "host \<Rightarrow> loader \<Rightarrow> string \<Rightarrow> bool" where
  "hasEnvVariable h st key =
     (if isBrowser (globals (realm st) h) then js_in (realm st) (environmentSettings st) key
      else js_in (realm st) (process_env st) key)"

section \<open>Notions the properties are stated with\<close>

text \<open>
  The text of a key before its first dot, and the text after that dot.
\<close>

definition namespace_of :: "string \<Rightarrow> string" where
  "namespace_of key = takeWhile (\<lambda>c. c \<noteq> CHR ''.'') key"

definition subkey_of :: "string \<Rightarrow> string" where
  "subkey_of key = tl (dropWhile (\<lambda>c. c \<noteq> CHR ''.'') key)"

text \<open>
  A settings object is free of the chain in a realm when none of the keys the loop
  acts on (truthy value, a dot, a non-empty namespace) has a namespace that names a
  member of \<^verbatim>\<open>Object.prototype\<close> or the sub-key \<^verbatim>\<open>__proto__\<close>.
\<close>

definition chain_free :: "realm \<Rightarrow> settings \<Rightarrow> bool" where
  "chain_free R env =
     list_all (\<lambda>(key, value).
        truthy value \<and> CHR ''.'' \<in> set key \<and> namespace_of key \<noteq> [] \<longrightarrow>
        \<not> inherits R (namespace_of key) \<and> subkey_of key \<noteq> ''__proto__'') env"

text \<open>
  The grouping as a function on association lists of plain objects only: what the
  loop computes on a settings object that is free of the chain
  (\<open>parseNamespacedSettings_plain\<close> below). \<open>plain\<close> turns such a grouping into the
  value of \<^verbatim>\<open>namespaced\<close>; \<open>ns_lookup\<close> is its entry at a namespace and a sub-key.
\<close>

fun plain_entry ::
  "(string \<times> settings) list \<Rightarrow> string \<times> string option \<Rightarrow> (string \<times> settings) list" where
  "plain_entry groups (key, value) =
     (if truthy value \<and> CHR ''.'' \<in> set key \<and> namespace_of key \<noteq> []
      then AList.update (namespace_of key)
             (AList.update (subkey_of key) value
                (case map_of groups (namespace_of key) of None \<Rightarrow> [] | Some s \<Rightarrow> s)) groups
      else groups)"

definition plain_groups :: "settings \<Rightarrow> (string \<times> settings) list" where
  "plain_groups env = foldl plain_entry [] env"

definition plain :: "(string \<times> settings) list \<Rightarrow> namespaced_settings" where
  "plain groups = map (\<lambda>(n, s). (n, Plain s)) groups"

definition ns_lookup :: "(string \<times> settings) list \<Rightarrow> string \<Rightarrow> string \<Rightarrow> string option option" where
  "ns_lookup N n k = (case map_of N n of None \<Rightarrow> None | Some inner \<Rightarrow> map_of inner k)"

text \<open>
  The invariant of a load, at one namespace: every entry \<open>(k, v)\<close> of what
  \<^verbatim>\<open>NamespacedSettings\<close> holds at the namespace \<open>n\<close> is the entry of the flat mapping at
  the key \<open>n.k\<close>. The entries of a plain object are its own; those of a string, as
  \<^verbatim>\<open>Object.entries\<close> gives them, are its characters at their indices, the indices
  written in decimal.
\<close>

definition rejoined_at :: "settings \<Rightarrow> string \<Rightarrow> settings \<Rightarrow> bool" where
  "rejoined_at flat n entries = list_all (\<lambda>(k, v). map_of flat (n @ ''.'' @ k) = Some v) entries"

fun decimal :: "nat \<Rightarrow> string" where
  "decimal n =
     (if n < 10 then [''0123456789'' ! n] else decimal (n div 10) @ [''0123456789'' ! (n mod 10)])"

definition string_entries :: "string \<Rightarrow> settings" where
  "string_entries s = map (\<lambda>i. (decimal i, Some [s ! i])) [0..<length s]"

text \<open>
  Keys that contain a dot are the only ones the loop acts on.
\<close>

definition dotted :: "string \<times> string option \<Rightarrow> bool" where
  "dotted e = (CHR ''.'' \<in> set (fst e))"

text \<open>
  \<^verbatim>\<open>process.cwd()\<close> is an absolute path without empty, \<^verbatim>\<open>"."\<close> or \<^verbatim>\<open>".."\<close>
  segments: the directory names from the root down, each a \<open>valid_name\<close>, written
  after a separator. The directories on the way from a directory up to the root are its
  prefixes, longest first, and the nearest configuration file is the one of the first
  of them that has one.
\<close>

definition valid_name :: "string \<Rightarrow> bool" where
  "valid_name c = (c \<noteq> [] \<and> CHR ''/'' \<notin> set c \<and> c \<noteq> ''.'' \<and> c \<noteq> ''..'')"

definition abs_path :: "string list \<Rightarrow> string" where
  "abs_path cs = CHR ''/'' # join_with ''/'' cs"

definition ancestors :: "string list \<Rightarrow> string list list" where
  "ancestors cs = rev (prefixes cs)"

definition nearest_env :: "host \<Rightarrow> string list \<Rightarrow> string option" where
  "nearest_env h cs =
     (case find (\<lambda>d. existsSync h (abs_path (d @ [''.env'']))) (ancestors cs) of
        None \<Rightarrow> None
      | Some d \<Rightarrow> Some (abs_path (d @ [''.env''])))"

text \<open>
  The mapping the point lookups read: the injected settings in a browser, the process
  environment on a host.
\<close>

definition active_settings :: "host \<Rightarrow> loader \<Rightarrow> settings" where
  "active_settings h st =
     (if isBrowser (globals (realm st) h) then environmentSettings st else process_env st)"

section \<open>Example inputs\<close>

text \<open>
  Stand-ins for the parser of \<^verbatim>\<open>dotenv\<close> (entries \<^verbatim>\<open>KEY=VALUE\<close> separated by
  semicolons) and for \<^verbatim>\<open>JSON.stringify\<close>; a host with a configuration file in the
  parent of its working directory, a host without any file, a browser, and a state at
  the start of the program with one namespaced key in the process environment.
\<close>

definition simple_parse :: "string \<Rightarrow> (string \<times> string) list" where
  "simple_parse content =
     map (\<lambda>l. (takeWhile (\<lambda>c. c \<noteq> CHR ''='') l, tl (dropWhile (\<lambda>c. c \<noteq> CHR ''='') l)))
       (filter (\<lambda>l. CHR ''='' \<in> set l) (split_on CHR '';'' content))"

definition simple_stringify :: "settings \<Rightarrow> string" where
  "simple_stringify s =
     ''{'' @ join_with '','' (map (\<lambda>(k, v). k @ '':'' @ (case v of None \<Rightarrow> [] | Some x \<Rightarrow> x)) s) @ ''}''"

definition simple_quote :: "string \<Rightarrow> string" where
  "simple_quote s = ''<'' @ s @ ''>''"

definition example_host :: host where
  "example_host =
     \<lparr>window = None, cwd = ''/srv/app'',
      files = [''/srv/.env'' \<mapsto> File ''openai.key=abc;API_KEY=s3''],
      dotenv_parse = simple_parse, json_stringify = simple_stringify,
      json_string = simple_quote\<rparr>"

definition bare_host :: host where
  "bare_host =
     \<lparr>window = None, cwd = ''/srv/app'', files = Map.empty,
      dotenv_parse = simple_parse, json_stringify = simple_stringify,
      json_string = simple_quote\<rparr>"

definition browser_host :: host where
  "browser_host =
     \<lparr>window = Some (Window True), cwd = [], files = Map.empty,
      dotenv_parse = simple_parse, json_stringify = simple_stringify,
      json_string = simple_quote\<rparr>"

definition example_loader :: loader where
  "example_loader =
     \<lparr>environmentSettings = [],
      process_env = [(''HOME'', Some ''/root''), (''db.url'', Some ''pg'')],
      realm = initial_realm\<rparr>"

text \<open>
  The state of a program that starts with the given process environment.
\<close>

definition started_with :: "settings \<Rightarrow> loader" where
  "started_with env = \<lparr>environmentSettings = [], process_env = env, realm = initial_realm\<rparr>"

section \<open>Properties of the API-key gate\<close>

lemma authMiddleware_cases:
  "authMiddleware env x =
     (if header_nonempty x \<and> header_equals_expected env x then call_next x else unauthorized x)"
proof (cases "headers (req x) ''x-api-key''")
  case None
  then show ?thesis
    by (simp add: authMiddleware_def header_nonempty_def header_equals_expected_def
        unauthorized_def send_def status_def)
next
  case (Some h)
  then show ?thesis
    by (cases h)
      (auto simp: authMiddleware_def header_nonempty_def header_equals_expected_def
        unauthorized_def send_def status_def)
qed

lemma call_next_neq_unauthorized: "call_next x \<noteq> unauthorized x"
proof
  assume "call_next x = unauthorized x"
  then have "nextCalls (call_next x) = nextCalls (unauthorized x)" by simp
  then show False by (simp add: call_next_def unauthorized_def)
qed

lemma passes_iff:
  "(header_nonempty x \<and> header_equals_expected env x) =
     (\<exists>v. v \<noteq> [] \<and> headers (req x) ''x-api-key'' = Some (Single v) \<and>
          obj_get env ''API_KEY'' = Some v)"
  by (auto simp: header_nonempty_def header_equals_expected_def
      split: option.splits header_value.splits)

text \<open>
  C1, as the code has it. The gate passes a request on (one call of the continuation,
  request and response sink untouched) exactly when its \<^verbatim>\<open>x-api-key\<close> header is a
  non-empty string equal to the value of \<^verbatim>\<open>API_KEY\<close> in the process environment read
  at that moment. In every other case (header absent, empty, repeated, or different
  from the expected value) it answers 401 with the body \<^verbatim>\<open>Unauthorized\<close> and does not
  call the continuation.
\<close>

theorem authMiddleware_gate:
  fixes env :: settings and x :: exchange
  defines "passes \<equiv> (\<exists>v. v \<noteq> [] \<and> headers (req x) ''x-api-key'' = Some (Single v) \<and>
                          obj_get env ''API_KEY'' = Some v)"
  shows "(passes \<longrightarrow> authMiddleware env x = x\<lparr>nextCalls := Suc (nextCalls x)\<rparr>) \<and>
         (\<not> passes \<longrightarrow>
            authMiddleware env x =
              x\<lparr>res := (res x)\<lparr>statusCode := 401, sent := Some ''Unauthorized''\<rparr>\<rparr>) \<and>
         (nextCalls (authMiddleware env x) = Suc (nextCalls x)) = passes \<and>
         req (authMiddleware env x) = req x"
proof -
  have p: "passes = (header_nonempty x \<and> header_equals_expected env x)"
    unfolding passes_def by (rule passes_iff [symmetric])
  show ?thesis
    unfolding p authMiddleware_cases
    by (simp add: call_next_def unauthorized_def)
qed

theorem authMiddleware_gate_witness:
  "authMiddleware [(''API_KEY'', Some ''correct'')]
     \<lparr>req = \<lparr>headers = [''x-api-key'' \<mapsto> Single ''correct'']\<rparr>,
      res = \<lparr>statusCode = 200, sent = None\<rparr>, nextCalls = 0\<rparr> =
   \<lparr>req = \<lparr>headers = [''x-api-key'' \<mapsto> Single ''correct'']\<rparr>,
    res = \<lparr>statusCode = 200, sent = None\<rparr>, nextCalls = 1\<rparr> \<and>
   authMiddleware [(''API_KEY'', Some ''correct'')]
     \<lparr>req = \<lparr>headers = [''x-api-key'' \<mapsto> Single ''wrong'']\<rparr>,
      res = \<lparr>statusCode = 200, sent = None\<rparr>, nextCalls = 0\<rparr> =
   \<lparr>req = \<lparr>headers = [''x-api-key'' \<mapsto> Single ''wrong'']\<rparr>,
    res = \<lparr>statusCode = 401, sent = Some ''Unauthorized''\<rparr>, nextCalls = 0\<rparr> \<and>
   authMiddleware [(''API_KEY'', Some ''correct'')]
     \<lparr>req = \<lparr>headers = Map.empty\<rparr>,
      res = \<lparr>statusCode = 200, sent = None\<rparr>, nextCalls = 0\<rparr> =
   \<lparr>req = \<lparr>headers = Map.empty\<rparr>,
    res = \<lparr>statusCode = 401, sent = Some ''Unauthorized''\<rparr>, nextCalls = 0\<rparr>"
  using
    authMiddleware_gate [where env = "[(''API_KEY'', Some ''correct'')]" and x =
      "\<lparr>req = \<lparr>headers = [''x-api-key'' \<mapsto> Single ''correct'']\<rparr>,
        res = \<lparr>statusCode = 200, sent = None\<rparr>, nextCalls = 0\<rparr>"]
    authMiddleware_gate [where env = "[(''API_KEY'', Some ''correct'')]" and x =
      "\<lparr>req = \<lparr>headers = [''x-api-key'' \<mapsto> Single ''wrong'']\<rparr>,
        res = \<lparr>statusCode = 200, sent = None\<rparr>, nextCalls = 0\<rparr>"]
    authMiddleware_gate [where env = "[(''API_KEY'', Some ''correct'')]" and x =
      "\<lparr>req = \<lparr>headers = Map.empty\<rparr>,
        res = \<lparr>statusCode = 200, sent = None\<rparr>, nextCalls = 0\<rparr>"]
  by (simp add: obj_get_def)

text \<open>
  C1, as the claim states it, fails: a request whose \<^verbatim>\<open>x-api-key\<close> header is the empty
  string, against an \<^verbatim>\<open>API_KEY\<close> configured as the empty string, carries a header equal
  to the expected value and is still answered 401 without a call of the continuation.
\<close>

theorem authMiddleware_empty_key_counterexample:
  "headers \<lparr>headers = [''x-api-key'' \<mapsto> Single '''']\<rparr> ''x-api-key'' = Some (Single '''') \<and>
   obj_get [(''API_KEY'', Some '''')] ''API_KEY'' = Some '''' \<and>
   authMiddleware [(''API_KEY'', Some '''')]
     \<lparr>req = \<lparr>headers = [''x-api-key'' \<mapsto> Single '''']\<rparr>,
      res = \<lparr>statusCode = 200, sent = None\<rparr>, nextCalls = 0\<rparr> =
   \<lparr>req = \<lparr>headers = [''x-api-key'' \<mapsto> Single '''']\<rparr>,
    res = \<lparr>statusCode = 401, sent = Some ''Unauthorized''\<rparr>, nextCalls = 0\<rparr>"
  by (simp add: authMiddleware_def obj_get_def send_def status_def)

text \<open>
  With the calls that always return, the gate with its calls left open is
  \<open>authMiddleware\<close>.
\<close>

lemma authMiddleware_on_returning:
  "authMiddleware_on returning_calls env x = Inr (authMiddleware env x)"
  by (simp add: authMiddleware_on_def authMiddleware_def returning_calls_def Let_def)

text \<open>
  An exception that leaves the gate is the exception of one of its three calls: reading
  the header, reading \<^verbatim>\<open>process.env.API_KEY\<close>, \<^verbatim>\<open>!\<close> and \<^verbatim>\<open>!==\<close> raise nothing.
\<close>

lemma authMiddleware_on_throws_only:
  assumes "authMiddleware_on c env x = Inl e"
  shows "res_status c 401 (res x) = Inl e \<or>
         (\<exists>r. res_status c 401 (res x) = Inr r \<and> res_send c ''Unauthorized'' r = Inl e) \<or>
         next_call c x = Inl e"
  using assms by (auto simp: authMiddleware_on_def Let_def split: if_splits sum.splits)

lemma authMiddleware_on_throws_example:
  "authMiddleware_on (returning_calls\<lparr>res_send := (\<lambda>body r. Inl (Thrown ''headers sent''))\<rparr>) []
     \<lparr>req = \<lparr>headers = Map.empty\<rparr>, res = \<lparr>statusCode = 200, sent = None\<rparr>, nextCalls = 0\<rparr> =
   Inl (Thrown ''headers sent'')"
  by (simp add: authMiddleware_on_def returning_calls_def Let_def)



text \<open>
  C10. With no \<^verbatim>\<open>API_KEY\<close> in the process environment the gate rejects every request,
  whatever its \<^verbatim>\<open>x-api-key\<close> header: status 401, and the continuation is not called.
\<close>

theorem authMiddleware_fails_closed:
  assumes "obj_get env ''API_KEY'' = None"
  shows "authMiddleware env x =
           x\<lparr>res := (res x)\<lparr>statusCode := 401, sent := Some ''Unauthorized''\<rparr>\<rparr> \<and>
         nextCalls (authMiddleware env x) = nextCalls x"
proof -
  have "\<not> header_equals_expected env x"
    using assms by (simp add: header_equals_expected_def split: option.splits header_value.splits)
  then show ?thesis
    unfolding authMiddleware_cases by (simp add: unauthorized_def)
qed

theorem authMiddleware_fails_closed_witness:
  "obj_get [(''PATH'', Some ''/usr/bin'')] ''API_KEY'' = None \<and>
   authMiddleware [(''PATH'', Some ''/usr/bin'')]
     \<lparr>req = \<lparr>headers = [''x-api-key'' \<mapsto> Single ''secret'']\<rparr>,
      res = \<lparr>statusCode = 200, sent = None\<rparr>, nextCalls = 0\<rparr> =
   \<lparr>req = \<lparr>headers = [''x-api-key'' \<mapsto> Single ''secret'']\<rparr>,
    res = \<lparr>statusCode = 401, sent = Some ''Unauthorized''\<rparr>, nextCalls = 0\<rparr>"
proof -
  have h: "obj_get [(''PATH'', Some ''/usr/bin'')] ''API_KEY'' = None"
    by (simp add: obj_get_def)
  show ?thesis
    using h authMiddleware_fails_closed [OF h, of
      "\<lparr>req = \<lparr>headers = [''x-api-key'' \<mapsto> Single ''secret'']\<rparr>,
        res = \<lparr>statusCode = 200, sent = None\<rparr>, nextCalls = 0\<rparr>"]
    by simp
qed

section \<open>Strings: splitting and joining\<close>

lemma split_on_nonempty: "split_on c s \<noteq> []"
  by (induction s) (auto split: list.splits)

lemma hd_split_on: "hd (split_on c s) = takeWhile (\<lambda>x. x \<noteq> c) s"
  by (induction s) (auto split: list.splits simp: split_on_nonempty)

lemma tl_split_on:
  "c \<in> set s \<Longrightarrow> tl (split_on c s) = split_on c (tl (dropWhile (\<lambda>x. x \<noteq> c) s))"
  by (induction s) (auto split: list.splits simp: split_on_nonempty)

lemma split_on_absent: "c \<notin> set s \<Longrightarrow> split_on c s = [s]"
  by (induction s) (auto split: list.splits simp: split_on_nonempty)

lemma join_with_Cons:
  "join_with sep (x # xs) = (if xs = [] then x else x @ sep @ join_with sep xs)"
  by (cases xs) auto

lemma join_with_snoc:
  "join_with sep (xs @ [x]) = (if xs = [] then x else join_with sep xs @ sep @ x)"
  by (induction sep xs rule: join_with.induct) auto

lemma join_split_on: "join_with [c] (split_on c s) = s"
proof (induction s)
  case Nil
  then show ?case by simp
next
  case (Cons x s)
  obtain w ws where r: "split_on c s = w # ws"
    using split_on_nonempty [of c s] by (cases "split_on c s") auto
  with Cons show ?case
    by (auto simp: join_with_Cons split: if_splits)
qed

lemma split_on_append: "c \<notin> set x \<Longrightarrow> split_on c (x @ c # r) = x # split_on c r"
  by (induction x) (auto split: list.splits simp: split_on_nonempty)

lemma split_on_join:
  "xs \<noteq> [] \<Longrightarrow> \<forall>x \<in> set xs. c \<notin> set x \<Longrightarrow> split_on c (join_with [c] xs) = xs"
proof (induction xs)
  case Nil
  then show ?case by simp
next
  case (Cons x xs)
  then show ?case
    by (cases "xs = []") (auto simp: join_with_Cons split_on_append split_on_absent)
qed

lemma split_on_dotted:
  assumes "c \<in> set s"
  shows "\<exists>rest. split_on c s = takeWhile (\<lambda>x. x \<noteq> c) s # rest \<and> rest \<noteq> [] \<and>
           join_with [c] rest = tl (dropWhile (\<lambda>x. x \<noteq> c) s)"
proof -
  have "split_on c s = hd (split_on c s) # tl (split_on c s)"
    using split_on_nonempty [of c s] by simp
  then have "split_on c s = takeWhile (\<lambda>x. x \<noteq> c) s # split_on c (tl (dropWhile (\<lambda>x. x \<noteq> c) s))"
    using assms by (simp add: hd_split_on tl_split_on)
  then show ?thesis
    by (simp add: split_on_nonempty join_split_on)
qed

lemma dotted_key_iff:
  "(CHR ''.'' \<in> set key \<and> n = namespace_of key \<and> k = subkey_of key) =
   (key = n @ ''.'' @ k \<and> CHR ''.'' \<notin> set n)"
proof
  assume a: "CHR ''.'' \<in> set key \<and> n = namespace_of key \<and> k = subkey_of key"
  then have "dropWhile (\<lambda>c. c \<noteq> CHR ''.'') key \<noteq> []" by simp
  moreover have "hd (dropWhile (\<lambda>c. c \<noteq> CHR ''.'') key) = CHR ''.''"
    using a hd_dropWhile [of "\<lambda>c. c \<noteq> CHR ''.''" key] by auto
  ultimately have "dropWhile (\<lambda>c. c \<noteq> CHR ''.'') key = CHR ''.'' # k"
    using a by (cases "dropWhile (\<lambda>c. c \<noteq> CHR ''.'') key") (auto simp: subkey_of_def)
  then have "key = n @ ''.'' @ k"
    using a takeWhile_dropWhile_id [of "\<lambda>c. c \<noteq> CHR ''.''" key]
    by (simp add: namespace_of_def)
  moreover have "CHR ''.'' \<notin> set n"
    using a by (auto simp: namespace_of_def dest: set_takeWhileD)
  ultimately show "key = n @ ''.'' @ k \<and> CHR ''.'' \<notin> set n" by simp
next
  assume "key = n @ ''.'' @ k \<and> CHR ''.'' \<notin> set n"
  then have k: "key = n @ CHR ''.'' # k" and n: "\<And>x. x \<in> set n \<Longrightarrow> x \<noteq> CHR ''.''"
    by auto
  have "takeWhile (\<lambda>c. c \<noteq> CHR ''.'') key = n"
    unfolding k using n by (subst takeWhile_append2) auto
  moreover have "dropWhile (\<lambda>c. c \<noteq> CHR ''.'') key = CHR ''.'' # k"
    unfolding k using n by (subst dropWhile_append2) auto
  ultimately show "CHR ''.'' \<in> set key \<and> n = namespace_of key \<and> k = subkey_of key"
    using k by (simp add: namespace_of_def subkey_of_def)
qed

lemma namespace_of_nodot: "CHR ''.'' \<notin> set (namespace_of key)"
  by (auto simp: namespace_of_def dest: set_takeWhileD)

section \<open>Paths below the root\<close>

text \<open>
  On the absolute paths \<open>abs_path cs\<close> the path functions are the list operations:
  the root is the empty list of names, the parent drops the last name, and joining a
  file name appends it.
\<close>

lemma join_with_eq_Nil:
  "list_all valid_name cs \<Longrightarrow> (join_with ''/'' cs = []) = (cs = [])"
  by (cases cs) (auto simp: join_with_Cons valid_name_def)

lemma parse_root_abs: "parse_root (abs_path cs) = ''/''"
  by (simp add: parse_root_def abs_path_def)

lemma abs_path_is_root: "list_all valid_name cs \<Longrightarrow> (abs_path cs = ''/'') = (cs = [])"
  by (simp add: abs_path_def join_with_eq_Nil)

lemma normalize_valid:
  "list_all valid_name xs \<Longrightarrow> foldl (normalize_segment b) acc xs = acc @ xs"
  by (induction xs arbitrary: acc) (auto simp: valid_name_def)

lemma valid_env: "valid_name ''.env''"
  by (simp add: valid_name_def)

lemma path_join_abs:
  assumes "list_all valid_name cs"
  shows "path_join (abs_path cs) ''.env'' = abs_path (cs @ [''.env''])"
proof -
  let ?xs = "cs @ [''.env'']"
  have v: "list_all valid_name ?xs" using assms valid_env by simp
  have noslash: "\<forall>x \<in> set ?xs. CHR ''/'' \<notin> set x"
    using v by (auto simp: list_all_iff valid_name_def)
  have segs: "foldl (normalize_segment False) [] (split_on CHR ''/'' (abs_path cs @ ''/.env'')) = ?xs"
  proof (cases "cs = []")
    case True
    then show ?thesis by (simp add: abs_path_def)
  next
    case False
    then have "abs_path cs @ ''/.env'' = CHR ''/'' # join_with ''/'' ?xs"
      by (simp add: abs_path_def join_with_snoc)
    moreover have "split_on CHR ''/'' (join_with ''/'' ?xs) = ?xs"
      using split_on_join [of ?xs "CHR ''/''"] noslash by simp
    ultimately show ?thesis
      using normalize_valid [OF v, of False "[]"] by simp
  qed
  have q: "normalizeString (abs_path cs @ ''/.env'') False = join_with ''/'' ?xs"
    unfolding normalizeString_def segs ..
  have ne: "join_with ''/'' ?xs \<noteq> []"
    using join_with_eq_Nil [OF v] by simp
  have hd: "hd (abs_path cs @ ''/.env'') = CHR ''/''"
    by (simp add: abs_path_def)
  have "normalize (abs_path cs @ ''/.env'') = abs_path ?xs"
    using ne by (simp add: normalize_def q Let_def hd) (simp add: abs_path_def)
  then show ?thesis
    by (simp add: path_join_def abs_path_def)
qed

lemma dirname_abs:
  assumes "list_all valid_name (cs @ [c])"
  shows "dirname (abs_path (cs @ [c])) = abs_path cs"
proof -
  from assms have c: "c \<noteq> []" "CHR ''/'' \<notin> set c" and cs: "list_all valid_name cs"
    by (auto simp: valid_name_def)
  have hd_rev: "hd (rev c) \<noteq> CHR ''/''"
    using c by (metis hd_rev last_in_set)
  have d1: "\<And>r. dropWhile (\<lambda>x. x = CHR ''/'') (rev c @ r) = rev c @ r"
    using c hd_rev by (cases "rev c") auto
  have d2: "\<And>r. dropWhile (\<lambda>x. x \<noteq> CHR ''/'') (rev c @ r) = dropWhile (\<lambda>x. x \<noteq> CHR ''/'') r"
    using c by (subst dropWhile_append2) auto
  show ?thesis
  proof (cases "cs = []")
    case True
    then show ?thesis
      using d1 [of "[]"] d2 [of "[]"] c
      by (simp add: dirname_def abs_path_def Let_def)
  next
    case False
    then have ne: "join_with ''/'' cs \<noteq> []"
      using join_with_eq_Nil [OF cs] by simp
    have j: "join_with ''/'' (cs @ [c]) = join_with ''/'' cs @ ''/'' @ c"
      using False by (simp add: join_with_snoc)
    have "dropWhile (\<lambda>x. x \<noteq> CHR ''/'')
            (dropWhile (\<lambda>x. x = CHR ''/'') (rev (join_with ''/'' (cs @ [c])))) =
          CHR ''/'' # rev (join_with ''/'' cs)"
      unfolding j using d1 [of "CHR ''/'' # rev (join_with ''/'' cs)"]
        d2 [of "CHR ''/'' # rev (join_with ''/'' cs)"] by simp
    then show ?thesis
      using ne by (simp add: dirname_def abs_path_def Let_def j)
  qed
qed

lemma example_cwd: "list_all valid_name [''srv'', ''app'']" "abs_path [''srv'', ''app''] = ''/srv/app''"
  by (simp_all add: valid_name_def abs_path_def)

section \<open>Nearest-file discovery\<close>

text \<open>
  From an absolute working directory the search ends, and returns the configuration
  file of the nearest directory on the way to the root that has one, or null.
\<close>

lemma search_up_abs:
  assumes "list_all valid_name cs"
  shows "search_up h (abs_path cs) = Some (nearest_env h cs)"
  using assms
proof (induction cs rule: rev_induct)
  case Nil
  show ?case
    using path_join_abs [of "[]"]
    by (subst search_up.simps)
      (simp add: nearest_env_def ancestors_def parse_root_def abs_path_def)
next
  case (snoc c cs)
  then have cs: "list_all valid_name cs" by simp
  have notroot: "abs_path (cs @ [c]) \<noteq> parse_root (abs_path (cs @ [c]))"
    using abs_path_is_root [OF snoc.prems] by (simp add: parse_root_abs)
  show ?case
    using notroot snoc.IH [OF cs]
    by (subst search_up.simps)
      (simp add: path_join_abs [OF snoc.prems] dirname_abs [OF snoc.prems]
        nearest_env_def ancestors_def)
qed

lemma findNearestEnvFile_absolute:
  assumes "\<not> isBrowser h" "list_all valid_name cs"
  shows "findNearestEnvFile h (abs_path cs) = Some (nearest_env h cs)"
  using assms by (simp add: findNearestEnvFile_def search_up_abs)

lemma nearest_env_None:
  "\<forall>d \<in> set (ancestors cs). \<not> existsSync h (abs_path (d @ [''.env''])) \<Longrightarrow> nearest_env h cs = None"
  by (auto simp: nearest_env_def find_None_iff split: option.splits)

lemma self_ancestor: "cs \<in> set (ancestors cs)"
  by (simp add: ancestors_def)

text \<open>
  From the relative directory \<^verbatim>\<open>"."\<close> the loop compares against the root
  \<^verbatim>\<open>""\<close>, which \<^verbatim>\<open>dirname\<close> never reaches: \<^verbatim>\<open>dirname(".")\<close> is \<^verbatim>\<open>"."\<close> again. Without
  a file \<^verbatim>\<open>.env\<close> there the search does not end.
\<close>

lemma search_up_dot_diverges:
  assumes "\<not> existsSync h ''.env''"
  shows "search_up h ''.'' = None"
proof -
  have step: "path_join ''.'' ''.env'' = ''.env''" "dirname ''.'' = ''.''"
    "parse_root ''.'' = []"
    by (simp_all add: path_join_def normalize_def normalizeString_def dirname_def parse_root_def)
  have "\<not> (d = ''.'' \<and> \<not> existsSync h' ''.env'')" if "search_up h' d = Some r" for h' d r
  proof (rule search_up.raw_induct
      [where P = "\<lambda>h d r. \<not> (d = ''.'' \<and> \<not> existsSync h ''.env'')", OF _ that])
    fix f h currentDir y
    assume ih: "\<And>a b y. f a b = Some y \<Longrightarrow> \<not> (b = ''.'' \<and> \<not> existsSync a ''.env'')"
      and body: "(if currentDir \<noteq> parse_root currentDir
          then let envPath = path_join currentDir ''.env''
               in if existsSync h envPath then Some (Some envPath)
                  else f h (dirname currentDir)
          else let rootEnvPath = path_join (parse_root currentDir) ''.env''
               in Some (if existsSync h rootEnvPath then Some rootEnvPath else None)) = Some y"
    show "\<not> (currentDir = ''.'' \<and> \<not> existsSync h ''.env'')"
    proof
      assume a: "currentDir = ''.'' \<and> \<not> existsSync h ''.env''"
      with body have "f h ''.'' = Some y"
        by (simp add: step)
      from ih [OF this] a show False by simp
    qed
  qed
  then show ?thesis
    using assms by (cases "search_up h ''.''") auto
qed

text \<open>
  C2. The claim promises a result for every starting directory. For the starting
  directory \<^verbatim>\<open>"."\<close> on a host whose working directory holds no \<^verbatim>\<open>.env\<close>,
  \<^verbatim>\<open>findNearestEnvFile\<close> returns nothing at all: the loop runs forever, also when a
  directory above the working directory has the file. (For absolute starting
  directories the claim holds: \<open>findNearestEnvFile_absolute\<close>.)
\<close>

theorem findNearestEnvFile_relative_diverges:
  assumes "\<not> isBrowser h" and "\<not> existsSync h ''.env''"
  shows "findNearestEnvFile h ''.'' = None"
  using assms by (simp add: findNearestEnvFile_def search_up_dot_diverges)

theorem findNearestEnvFile_relative_diverges_witness:
  "\<not> isBrowser example_host \<and> \<not> existsSync example_host ''.env'' \<and>
   cwd example_host = ''/srv/app'' \<and> existsSync example_host ''/srv/.env'' \<and>
   findNearestEnvFile example_host ''.'' = None"
proof -
  have a: "\<not> isBrowser example_host" by (simp add: isBrowser_def example_host_def)
  have b: "\<not> existsSync example_host ''.env''" by (simp add: existsSync_def example_host_def)
  have c: "cwd example_host = ''/srv/app''" "existsSync example_host ''/srv/.env''"
    by (simp_all add: existsSync_def example_host_def)
  from a b c findNearestEnvFile_relative_diverges [OF a b] show ?thesis by simp
qed

section \<open>Point lookups\<close>

text \<open>
  In a realm without members \<^verbatim>\<open>window\<close> and \<^verbatim>\<open>document\<close> on
  \<^verbatim>\<open>Object.prototype\<close>, as it is when the program starts, the code sees the globals of
  the host.
\<close>

lemma globals_clean:
  "\<not> inherits R ''window'' \<Longrightarrow> \<not> inherits R ''document'' \<Longrightarrow> globals R h = h"
  by (cases "window h") (simp_all add: globals_def)

lemma initial_realm_clean:
  "\<not> inherits initial_realm ''window''" "\<not> inherits initial_realm ''document''"
  by (simp_all add: inherits_def obj_has_def initial_realm_def object_prototype_members_def)

lemma globals_initial: "globals initial_realm h = h"
  by (rule globals_clean [OF initial_realm_clean])

lemma isBrowser_globals: "isBrowser h \<Longrightarrow> isBrowser (globals R h)"
  by (simp add: isBrowser_def globals_def split: option.splits)

text \<open>
  Both lookups follow the prototype chain: for a key that names a member of
  \<^verbatim>\<open>Object.prototype\<close> and is not in the settings, \<^verbatim>\<open>hasEnvVariable\<close> is true and
  \<^verbatim>\<open>getEnvVariable\<close> returns that member, not the default.
\<close>

lemma lookup_inherited_example:
  "getEnvVariable bare_host example_loader ''constructor'' (Some ''fallback'') =
     Builtin ''constructor''"
  "hasEnvVariable bare_host example_loader ''toString''"
  "getEnvVariable bare_host example_loader ''__proto__'' None = ObjectPrototype"
  by (simp_all add: getEnvVariable_def hasEnvVariable_def isBrowser_def bare_host_def
      example_loader_def globals_initial js_get_def js_in_def js_or_def inherited_def inherits_def
      obj_has_def initial_realm_def object_prototype_members_def)

text \<open>
  C3, as the code has it. For a key that names no member of \<^verbatim>\<open>Object.prototype\<close>
  (and is not \<^verbatim>\<open>__proto__\<close>): \<^verbatim>\<open>getEnvVariable(key, defaultValue)\<close> returns the
  stored value when the key is present with a non-empty string; in every other case
  (key absent, or stored value empty or undefined) it returns \<^verbatim>\<open>defaultValue\<close>, which
  is undefined when none was supplied. \<^verbatim>\<open>hasEnvVariable(key)\<close> is true exactly when
  the key is present. Both read the injected settings in a browser and the process
  environment on a host.
\<close>

theorem getEnvVariable_lookup:
  fixes h :: host and st :: loader and key :: string and defaultValue :: "string option"
  defines "store \<equiv> active_settings h st"
  assumes "\<not> inherits (realm st) key"
  shows "(\<forall>v. map_of store key = Some (Some v) \<and> v \<noteq> [] \<longrightarrow>
            getEnvVariable h st key defaultValue = Str v) \<and>
         ((\<nexists>v. map_of store key = Some (Some v) \<and> v \<noteq> []) \<longrightarrow>
            getEnvVariable h st key defaultValue = of_setting defaultValue) \<and>
         (key \<notin> fst ` set store \<longrightarrow>
            getEnvVariable h st key defaultValue = of_setting defaultValue) \<and>
         hasEnvVariable h st key = (key \<in> fst ` set store)"
proof -
  have g: "getEnvVariable h st key defaultValue =
      js_or (js_get (realm st) store key) (of_setting defaultValue)"
    by (simp add: getEnvVariable_def store_def active_settings_def)
  have "map_of (object_prototype (realm st)) key = None" and "key \<noteq> ''__proto__''"
    using assms(2) by (simp_all add: inherits_def obj_has_def map_of_eq_None_iff)
  then have i: "inherited (realm st) key = Undefined"
    by (simp add: inherited_def)
  have hs: "hasEnvVariable h st key = (key \<in> fst ` set store)"
    using assms(2) by (simp add: hasEnvVariable_def store_def active_settings_def js_in_def obj_has_def)
  have absent: "key \<notin> fst ` set store \<Longrightarrow> map_of store key = None"
    by (simp add: map_of_eq_None_iff)
  show ?thesis
    unfolding g hs using absent i
    by (cases "map_of store key")
      (auto simp: js_or_def js_get_def of_setting_def split: option.splits)
qed

theorem getEnvVariable_lookup_witness:
  "\<not> inherits (realm example_loader) ''MISSING'' \<and>
   \<not> inherits (realm example_loader) ''HOME'' \<and>
   getEnvVariable bare_host example_loader ''MISSING'' (Some ''fallback'') = Str ''fallback'' \<and>
   getEnvVariable bare_host example_loader ''MISSING'' None = Undefined \<and>
   hasEnvVariable bare_host example_loader ''MISSING'' = False \<and>
   getEnvVariable bare_host example_loader ''HOME'' (Some ''fallback'') = Str ''/root'' \<and>
   hasEnvVariable bare_host example_loader ''HOME'' = True"
proof -
  have a: "\<not> inherits (realm example_loader) ''MISSING''"
    and b: "\<not> inherits (realm example_loader) ''HOME''"
    by (simp_all add: inherits_def obj_has_def example_loader_def initial_realm_def
        object_prototype_members_def)
  have s: "active_settings bare_host example_loader =
      [(''HOME'', Some ''/root''), (''db.url'', Some ''pg'')]"
    by (simp add: active_settings_def isBrowser_def bare_host_def example_loader_def
        globals_initial)
  from getEnvVariable_lookup [OF a, of bare_host "Some ''fallback''"]
    getEnvVariable_lookup [OF a, of bare_host None]
    getEnvVariable_lookup [OF b, of bare_host "Some ''fallback''"]
  show ?thesis
    using a b unfolding s by (simp add: of_setting_def)
qed

text \<open>
  C3, as the claim states it, fails: for a key that is present with the empty string as
  its value, \<^verbatim>\<open>getEnvVariable\<close> returns the default (or undefined), not the stored
  value.
\<close>

theorem getEnvVariable_empty_value_counterexample:
  "hasEnvVariable bare_host (started_with [(''EMPTY'', Some '''')]) ''EMPTY'' \<and>
   map_of (process_env (started_with [(''EMPTY'', Some '''')])) ''EMPTY'' = Some (Some '''') \<and>
   getEnvVariable bare_host (started_with [(''EMPTY'', Some '''')]) ''EMPTY'' (Some ''fallback'') =
     Str ''fallback'' \<and>
   getEnvVariable bare_host (started_with [(''EMPTY'', Some '''')]) ''EMPTY'' None = Undefined"
  by (simp add: hasEnvVariable_def getEnvVariable_def isBrowser_def bare_host_def obj_has_def
      js_get_def js_in_def js_or_def of_setting_def started_with_def globals_initial)

section \<open>Namespaced settings\<close>

text \<open>
  The loop on keys that reach the prototype chain: a namespace that names a member of
  \<^verbatim>\<open>Object.prototype\<close> takes that member as its inner mapping, the namespace
  \<^verbatim>\<open>__proto__\<close> writes to \<^verbatim>\<open>Object.prototype\<close> and creates no namespace, the sub-key
  \<^verbatim>\<open>__proto__\<close> is dropped, and a write to a read-only property of a function or to a
  string raises.
\<close>

lemma parseNamespacedSettings_chain_examples:
  "parseNamespacedSettings initial_realm [(''constructor.name'', Some ''v'')] =
     (Inl TypeError, initial_realm)"
  "fst (parseNamespacedSettings initial_realm [(''constructor.x'', Some ''v'')]) =
     Inr [(''constructor'', Taken (Fn ''constructor''))]"
  "builtin_writes (snd (parseNamespacedSettings initial_realm [(''constructor.x'', Some ''v'')])) =
     [((''constructor'', ''x''), ''v'')]"
  "fst (parseNamespacedSettings initial_realm [(''__proto__.x'', Some ''v'')]) = Inr []"
  "map_of (object_prototype (snd (parseNamespacedSettings initial_realm [(''__proto__.x'', Some ''v'')])))
     ''x'' = Some (Text ''v'')"
  "parseNamespacedSettings initial_realm [(''a.__proto__'', Some ''v'')] =
     (Inr [(''a'', Plain [])], initial_realm)"
  by (simp_all add: parseNamespacedSettings_def entries_overwritten_def initial_realm_def
      object_prototype_members_def ns_ensure_def ns_read_def read_only_def text_of_def Let_def)

declare plain_entry.simps [simp del]

lemma ns_lookup_entry:
  "ns_lookup (plain_entry acc (key, value)) n k =
     (if truthy value \<and> CHR ''.'' \<in> set key \<and> namespace_of key \<noteq> [] \<and>
         n = namespace_of key \<and> k = subkey_of key
      then Some value else ns_lookup acc n k)"
  by (auto simp: plain_entry.simps ns_lookup_def update_conv'
      split: option.splits)

lemma groups_snoc:
  "plain_groups (env @ [e]) = plain_entry (plain_groups env) e"
  by (simp add: plain_groups_def)

lemma ns_lookup_groups_snoc:
  "ns_lookup (plain_groups (env @ [(key, value)])) n k =
     (if truthy value \<and> key = n @ ''.'' @ k \<and> CHR ''.'' \<notin> set n \<and> n \<noteq> []
      then Some value else ns_lookup (plain_groups env) n k)"
  using dotted_key_iff [of key n k]
  by (auto simp: plain_groups_def ns_lookup_entry)

lemma ns_lookup_groups:
  assumes "distinct (map fst env)"
  shows "ns_lookup (plain_groups env) n k =
     (case map_of env (n @ ''.'' @ k) of
        None \<Rightarrow> None
      | Some value \<Rightarrow> if truthy value \<and> CHR ''.'' \<notin> set n \<and> n \<noteq> [] then Some value else None)"
  using assms
proof (induction env rule: rev_induct)
  case Nil
  then show ?case by (simp add: plain_groups_def ns_lookup_def)
next
  case (snoc x env)
  obtain key val where x: "x = (key, val)" by (cases x)
  from snoc.prems have d: "distinct (map fst env)" and fresh: "key \<notin> fst ` set env"
    by (auto simp: x)
  have none: "map_of env key = None"
    using fresh by (simp add: map_of_eq_None_iff)
  show ?case
    unfolding x ns_lookup_groups_snoc snoc.IH [OF d]
    using none by (auto simp: map_add_def split: option.splits)
qed

lemma inner_nonempty_step:
  assumes "\<forall>n inner. map_of acc n = Some inner \<longrightarrow> inner \<noteq> []"
  shows "\<forall>n inner. map_of (plain_entry acc e) n = Some inner \<longrightarrow> inner \<noteq> []"
proof -
  obtain key val where e: "e = (key, val)" by (cases e)
  show ?thesis
    unfolding e plain_entry.simps using assms
    by (auto simp: update_conv')
qed

lemma inner_nonempty_groups:
  "map_of (plain_groups env) n = Some inner \<Longrightarrow> inner \<noteq> []"
proof (induction env arbitrary: n inner rule: rev_induct)
  case Nil
  then show ?case by (simp add: plain_groups_def)
next
  case (snoc x env)
  have "\<forall>n inner. map_of (plain_groups env) n = Some inner \<longrightarrow> inner \<noteq> []"
    using snoc.IH by blast
  from inner_nonempty_step [OF this, of x] snoc.prems show ?case
    by (simp add: plain_groups_def)
qed

lemma groups_keys:
  "n \<in> fst ` set (plain_groups env) \<Longrightarrow> n \<noteq> [] \<and> CHR ''.'' \<notin> set n"
proof (induction env rule: rev_induct)
  case Nil
  then show ?case by (simp add: plain_groups_def)
next
  case (snoc e env)
  obtain key val where e: "e = (key, val)" by (cases e)
  from snoc show ?case
    unfolding e groups_snoc plain_entry.simps
    by (auto simp: dom_update namespace_of_nodot split: if_splits)
qed

lemma groups_distinct: "distinct (map fst (plain_groups env))"
proof (induction env rule: rev_induct)
  case Nil
  then show ?case by (simp add: plain_groups_def)
next
  case (snoc e env)
  obtain key val where e: "e = (key, val)" by (cases e)
  from snoc show ?case
    unfolding e groups_snoc plain_entry.simps
    by (simp add: distinct_update)
qed

lemma inner_distinct_step:
  assumes "\<forall>n inner. map_of acc n = Some inner \<longrightarrow> distinct (map fst inner)"
  shows "\<forall>n inner. map_of (plain_entry acc e) n = Some inner \<longrightarrow> distinct (map fst inner)"
proof -
  obtain key val where e: "e = (key, val)" by (cases e)
  show ?thesis
    unfolding e plain_entry.simps using assms
    by (auto simp: update_conv' distinct_update split: option.splits)
qed

lemma inner_distinct_groups:
  "map_of (plain_groups env) n = Some inner \<Longrightarrow> distinct (map fst inner)"
proof (induction env arbitrary: n inner rule: rev_induct)
  case Nil
  then show ?case by (simp add: plain_groups_def)
next
  case (snoc x env)
  have "\<forall>n inner. map_of (plain_groups env) n = Some inner \<longrightarrow> distinct (map fst inner)"
    using snoc.IH by blast
  from inner_distinct_step [OF this, of x] snoc.prems show ?case
    by (simp add: plain_groups_def)
qed

lemma foldl_entry_filter:
  "foldl plain_entry acc env = foldl plain_entry acc (filter dotted env)"
proof (induction env arbitrary: acc)
  case Nil
  then show ?case by simp
next
  case (Cons e env)
  obtain key val where e: "e = (key, val)" by (cases e)
  show ?case
    unfolding e using Cons.IH
    by (simp add: dotted_def plain_entry.simps)
qed


text \<open>
  On a settings object that is free of the chain the loop raises nothing, leaves the
  realm alone and computes the grouping.
\<close>

lemma map_of_plain: "map_of (plain N) n = map_option Plain (map_of N n)"
  by (induction N) (auto simp: plain_def)

lemma update_plain: "AList.update n (Plain s) (plain N) = plain (AList.update n s N)"
  by (induction N) (auto simp: plain_def)

lemma not_inherits:
  "\<not> inherits R n \<Longrightarrow> n \<noteq> ''__proto__'' \<and> map_of (object_prototype R) n = None"
  by (simp add: inherits_def obj_has_def map_of_eq_None_iff)

lemma ns_read_plain:
  "\<not> inherits R n \<Longrightarrow>
   ns_read R (plain N) n = (case map_of N n of None \<Rightarrow> Missing | Some s \<Rightarrow> Held (Plain s))"
  by (auto simp: ns_read_def map_of_plain dest: not_inherits split: option.splits)

lemma ns_ensure_plain:
  "\<not> inherits R n \<Longrightarrow>
   ns_ensure R (plain N) n =
     plain (AList.update n (case map_of N n of None \<Rightarrow> [] | Some s \<Rightarrow> s) N)"
  by (simp add: ns_ensure_def ns_read_plain update_plain split: option.splits)

lemma namespace_entry_plain:
  assumes "truthy val \<and> CHR ''.'' \<in> set key \<and> namespace_of key \<noteq> [] \<longrightarrow>
           \<not> inherits R (namespace_of key) \<and> subkey_of key \<noteq> ''__proto__''"
  shows "namespace_entry R (plain N) (key, val) = (Inr (plain (plain_entry N (key, val))), R)"
proof (cases "truthy val \<and> CHR ''.'' \<in> set key \<and> namespace_of key \<noteq> []")
  case True
  then have dot: "CHR ''.'' \<in> set key" and t: "truthy val" and ne: "namespace_of key \<noteq> []"
    by simp_all
  from assms True have free: "\<not> inherits R (namespace_of key)"
    and sk: "subkey_of key \<noteq> ''__proto__''" by simp_all
  from split_on_dotted [OF dot] obtain rest where
    sp: "split_on CHR ''.'' key = namespace_of key # rest" "rest \<noteq> []"
    "join_with ''.'' rest = subkey_of key"
    by (auto simp: namespace_of_def subkey_of_def)
  let ?inner = "case map_of N (namespace_of key) of None \<Rightarrow> [] | Some s \<Rightarrow> s"
  let ?N1 = "AList.update (namespace_of key) ?inner N"
  have r: "ns_read R (plain ?N1) (namespace_of key) = Held (Plain ?inner)"
    by (simp add: ns_read_plain [OF free] update_conv')
  show ?thesis
    using t ne sk
    by (simp add: sp Let_def ns_ensure_plain [OF free] r update_plain plain_entry.simps dot)
next
  case False
  then show ?thesis
  proof (cases "CHR ''.'' \<in> set key")
    case True
    from split_on_dotted [OF True] obtain rest where
      "split_on CHR ''.'' key = namespace_of key # rest" "rest \<noteq> []"
      by (auto simp: namespace_of_def)
    with False True show ?thesis
      by (auto simp: plain_entry.simps)
  next
    case False
    then show ?thesis
      by (simp add: split_on_absent plain_entry.simps)
  qed
qed

lemma chain_free_Cons:
  "chain_free R ((key, val) # env) =
     ((truthy val \<and> CHR ''.'' \<in> set key \<and> namespace_of key \<noteq> [] \<longrightarrow>
        \<not> inherits R (namespace_of key) \<and> subkey_of key \<noteq> ''__proto__'') \<and>
      chain_free R env)"
  by (simp add: chain_free_def)

lemma namespace_entries_plain:
  "chain_free R env \<Longrightarrow>
   namespace_entries R (plain N) env = (Inr (plain (foldl plain_entry N env)), R)"
proof (induction env arbitrary: N)
  case Nil
  then show ?case by simp
next
  case (Cons e env)
  obtain key val where e: "e = (key, val)" by (cases e)
  from Cons.prems have here: "truthy val \<and> CHR ''.'' \<in> set key \<and> namespace_of key \<noteq> [] \<longrightarrow>
      \<not> inherits R (namespace_of key) \<and> subkey_of key \<noteq> ''__proto__''"
    and rest: "chain_free R env"
    unfolding e chain_free_Cons by simp_all
  show ?case
    unfolding e using Cons.IH [OF rest]
    by (simp add: namespace_entry_plain [OF here] del: namespace_entry.simps)
qed

lemma parseNamespacedSettings_plain:
  assumes "chain_free R env" and "\<not> entries_overwritten R"
  shows "parseNamespacedSettings R env = (Inr (plain (plain_groups env)), R)"
  using namespace_entries_plain [OF assms(1), of "[]"] assms(2)
  by (simp add: parseNamespacedSettings_def plain_groups_def plain_def)

lemma initial_entries: "\<not> entries_overwritten initial_realm"
  by (simp add: entries_overwritten_def initial_realm_def)

text \<open>
  C4, as the code has it. In a program that has just started, for a flat mapping (each
  key once) that is free of the chain (no key with a dot, a non-empty namespace and a
  non-empty value has a namespace that names a member of \<^verbatim>\<open>Object.prototype\<close> or is
  \<^verbatim>\<open>__proto__\<close>, or has the sub-key \<^verbatim>\<open>__proto__\<close>): the loop returns and leaves the
  realm as it is; every key that contains a dot, has a non-empty text before its first
  dot and a non-empty value is stored under the namespace that is that text, at the
  sub-key that is the rest of the key with its further dots; every entry of the
  namespaced mapping comes from such a key with the same value; and every namespace
  holds a plain object that is not empty, so a key without a dot, with an empty
  namespace or with an empty or undefined value appears nowhere.
\<close>

theorem parseNamespacedSettings_groups:
  assumes "distinct (map fst env)" and "chain_free initial_realm env"
  shows "\<exists>N. parseNamespacedSettings initial_realm env = (Inr N, initial_realm) \<and>
         (\<forall>(key, v) \<in> set env.
            CHR ''.'' \<in> set key \<and> namespace_of key \<noteq> [] \<and> truthy v \<longrightarrow>
            (\<exists>inner. map_of N (namespace_of key) = Some (Plain inner) \<and>
                     map_of inner (subkey_of key) = Some v)) \<and>
         (\<forall>n inner k v.
            map_of N n = Some (Plain inner) \<and> map_of inner k = Some v \<longrightarrow>
            map_of env (n @ ''.'' @ k) = Some v \<and> n \<noteq> [] \<and> CHR ''.'' \<notin> set n \<and> truthy v) \<and>
         (\<forall>n x. map_of N n = Some x \<longrightarrow> (\<exists>inner. x = Plain inner \<and> inner \<noteq> []))"
proof (intro exI conjI)
  show "parseNamespacedSettings initial_realm env = (Inr (plain (plain_groups env)), initial_realm)"
    using assms(2) initial_entries by (rule parseNamespacedSettings_plain)
next
  show "\<forall>(key, v) \<in> set env.
          CHR ''.'' \<in> set key \<and> namespace_of key \<noteq> [] \<and> truthy v \<longrightarrow>
          (\<exists>inner. map_of (plain (plain_groups env)) (namespace_of key) = Some (Plain inner) \<and>
                   map_of inner (subkey_of key) = Some v)"
  proof (clarify)
    fix key v
    assume e: "(key, v) \<in> set env" and dot: "CHR ''.'' \<in> set key"
      and ns: "namespace_of key \<noteq> []" and t: "truthy v"
    have k: "key = namespace_of key @ ''.'' @ subkey_of key" and nd: "CHR ''.'' \<notin> set (namespace_of key)"
      using dotted_key_iff [of key "namespace_of key" "subkey_of key"] dot by simp_all
    have "map_of env key = Some v"
      using assms(1) e by simp
    then have "ns_lookup (plain_groups env) (namespace_of key) (subkey_of key) = Some v"
      using k nd ns t by (simp add: ns_lookup_groups [OF assms(1)] flip: k)
    then show "\<exists>inner. map_of (plain (plain_groups env)) (namespace_of key) = Some (Plain inner) \<and>
                 map_of inner (subkey_of key) = Some v"
      by (auto simp: ns_lookup_def map_of_plain split: option.splits)
  qed
next
  show "\<forall>n inner k v.
          map_of (plain (plain_groups env)) n = Some (Plain inner) \<and> map_of inner k = Some v \<longrightarrow>
          map_of env (n @ ''.'' @ k) = Some v \<and> n \<noteq> [] \<and> CHR ''.'' \<notin> set n \<and> truthy v"
  proof (clarify)
    fix n inner k v
    assume "map_of (plain (plain_groups env)) n = Some (Plain inner)" "map_of inner k = Some v"
    then have "ns_lookup (plain_groups env) n k = Some v"
      by (auto simp: ns_lookup_def map_of_plain)
    then show "map_of env (n @ ''.'' @ k) = Some v \<and> n \<noteq> [] \<and> CHR ''.'' \<notin> set n \<and> truthy v"
      unfolding ns_lookup_groups [OF assms(1)] by (auto split: option.splits if_splits)
  qed
next
  show "\<forall>n x. map_of (plain (plain_groups env)) n = Some x \<longrightarrow>
          (\<exists>inner. x = Plain inner \<and> inner \<noteq> [])"
    using inner_nonempty_groups by (auto simp: map_of_plain)
qed

lemma chain_free_example:
  "chain_free initial_realm [(''openai.key'', Some ''abc''), (''openai.model'', Some ''gpt''),
                            (''plain'', Some ''x'')]"
  "chain_free initial_realm [(''a.b.c'', Some ''v'')]"
  by (simp_all add: chain_free_def namespace_of_def subkey_of_def inherits_def obj_has_def
      initial_realm_def object_prototype_members_def)

theorem parseNamespacedSettings_groups_witness:
  "distinct (map fst [(''openai.key'', Some ''abc''), (''openai.model'', Some ''gpt''),
                      (''plain'', Some ''x'')]) \<and>
   chain_free initial_realm [(''openai.key'', Some ''abc''), (''openai.model'', Some ''gpt''),
                            (''plain'', Some ''x'')] \<and>
   parseNamespacedSettings initial_realm
     [(''openai.key'', Some ''abc''), (''openai.model'', Some ''gpt''), (''plain'', Some ''x'')] =
     (Inr [(''openai'', Plain [(''key'', Some ''abc''), (''model'', Some ''gpt'')])], initial_realm) \<and>
   parseNamespacedSettings initial_realm [(''a.b.c'', Some ''v'')] =
     (Inr [(''a'', Plain [(''b.c'', Some ''v'')])], initial_realm)"
proof -
  let ?E = "[(''openai.key'', Some ''abc''), (''openai.model'', Some ''gpt''), (''plain'', Some ''x'')]"
  have d: "distinct (map fst ?E)" "distinct (map fst [(''a.b.c'', Some ''v'')])" by simp_all
  have g1: "plain (plain_groups ?E) =
      [(''openai'', Plain [(''key'', Some ''abc''), (''model'', Some ''gpt'')])]"
    by (simp add: plain_groups_def plain_entry.simps namespace_of_def subkey_of_def plain_def)
  have g2: "plain (plain_groups [(''a.b.c'', Some ''v'')]) = [(''a'', Plain [(''b.c'', Some ''v'')])]"
    by (simp add: plain_groups_def plain_entry.simps namespace_of_def subkey_of_def plain_def)
  from parseNamespacedSettings_groups [OF d(1) chain_free_example(1)]
    parseNamespacedSettings_groups [OF d(2) chain_free_example(2)]
  show ?thesis
    using d chain_free_example
    by (simp add: parseNamespacedSettings_plain [OF chain_free_example(1) initial_entries]
        parseNamespacedSettings_plain [OF chain_free_example(2) initial_entries] g1 g2)
qed

text \<open>
  C4, as the claim states it, fails: the keys \<^verbatim>\<open>a.b\<close> with an empty value and
  \<^verbatim>\<open>.b\<close> contain a dot and are assigned to no namespace.
\<close>

theorem parseNamespacedSettings_skips_counterexample:
  "CHR ''.'' \<in> set ''a.b'' \<and>
   parseNamespacedSettings initial_realm [(''a.b'', Some '''')] = (Inr [], initial_realm) \<and>
   CHR ''.'' \<in> set ''.b'' \<and>
   parseNamespacedSettings initial_realm [(''.b'', Some ''v'')] = (Inr [], initial_realm)"
  by (simp add: parseNamespacedSettings_def initial_entries)

section \<open>What the library calls do to the environment\<close>

lemma populate_Cons:
  "populate env ((k, v) # parsed) =
     populate (if obj_has env k then env else AList.update k (Some v) env) parsed"
  by (simp add: populate_def)

lemma populate_Nil: "populate env [] = env"
  by (simp add: populate_def)

lemma populate_keys: "fst ` set (populate env parsed) = fst ` set env \<union> fst ` set parsed"
proof (induction parsed arbitrary: env)
  case Nil
  then show ?case by (simp add: populate_Nil)
next
  case (Cons kv parsed)
  obtain k v where kv: "kv = (k, v)" by (cases kv)
  show ?case
    unfolding kv populate_Cons Cons.IH
    by (auto simp: obj_has_def dom_update)
qed

lemma populate_noop: "fst ` set parsed \<subseteq> fst ` set env \<Longrightarrow> populate env parsed = env"
proof (induction parsed)
  case Nil
  then show ?case by (simp add: populate_Nil)
next
  case (Cons kv parsed)
  obtain k v where kv: "kv = (k, v)" by (cases kv)
  from Cons show ?case
    unfolding kv populate_Cons by (simp add: obj_has_def)
qed

lemma populate_distinct:
  "distinct (map fst env) \<Longrightarrow> distinct (map fst (populate env parsed))"
proof (induction parsed arbitrary: env)
  case Nil
  then show ?case by (simp add: populate_Nil)
next
  case (Cons kv parsed)
  obtain k v where kv: "kv = (k, v)" by (cases kv)
  show ?case
    unfolding kv populate_Cons using Cons.prems
    by (intro Cons.IH) (simp add: distinct_update)
qed

lemma attach_Nil: "attach_namespaced h [] env = env"
  by (simp add: attach_namespaced_def)

lemma attach_Cons:
  "attach_namespaced h ((n, s) # N) env =
     attach_namespaced h N (AList.update (''__namespaced_'' @ n) (Some (stringified h s)) env)"
  by (simp add: attach_namespaced_def)

lemma attach_keys:
  "fst ` set (attach_namespaced h N env) =
     fst ` set env \<union> (\<lambda>n. ''__namespaced_'' @ n) ` fst ` set N"
proof (induction N arbitrary: env)
  case Nil
  then show ?case by (simp add: attach_Nil)
next
  case (Cons e N)
  obtain n s where e: "e = (n, s)" by (cases e)
  show ?case
    unfolding e attach_Cons Cons.IH by (auto simp: dom_update)
qed

lemma attach_other:
  "k \<notin> (\<lambda>n. ''__namespaced_'' @ n) ` fst ` set N \<Longrightarrow>
   map_of (attach_namespaced h N env) k = map_of env k"
proof (induction N arbitrary: env)
  case Nil
  then show ?case by (simp add: attach_Nil)
next
  case (Cons e N)
  obtain n s where e: "e = (n, s)" by (cases e)
  from Cons.prems have "k \<notin> (\<lambda>n. ''__namespaced_'' @ n) ` fst ` set N"
    and "k \<noteq> ''__namespaced_'' @ n"
    by (auto simp: e)
  then show ?case
    unfolding e attach_Cons by (simp add: Cons.IH update_conv')
qed

lemma attach_distinct:
  "distinct (map fst env) \<Longrightarrow> distinct (map fst (attach_namespaced h N env))"
proof (induction N arbitrary: env)
  case Nil
  then show ?case by (simp add: attach_Nil)
next
  case (Cons e N)
  obtain n s where e: "e = (n, s)" by (cases e)
  show ?case
    unfolding e attach_Cons using Cons.prems
    by (intro Cons.IH) (simp add: distinct_update)
qed

lemma attach_derived:
  "distinct (map fst N) \<Longrightarrow> (n, s) \<in> set N \<Longrightarrow>
   map_of (attach_namespaced h N env) (''__namespaced_'' @ n) = Some (Some (stringified h s))"
proof (induction N arbitrary: env)
  case Nil
  then show ?case by simp
next
  case (Cons e N)
  obtain n0 s0 where e: "e = (n0, s0)" by (cases e)
  from Cons.prems have d: "distinct (map fst N)" and fresh: "n0 \<notin> fst ` set N"
    by (auto simp: e)
  show ?case
  proof (cases "(n, s) \<in> set N")
    case True
    then show ?thesis
      unfolding e attach_Cons by (rule Cons.IH [OF d])
  next
    case False
    with Cons.prems have eq: "n = n0" "s = s0" by (auto simp: e)
    have "''__namespaced_'' @ n0 \<notin> (\<lambda>n. ''__namespaced_'' @ n) ` fst ` set N"
      using fresh by auto
    then show ?thesis
      unfolding e attach_Cons eq by (simp add: attach_other update_conv')
  qed
qed

lemma attach_noop:
  "\<forall>(n, s) \<in> set N. map_of env (''__namespaced_'' @ n) = Some (Some (stringified h s)) \<Longrightarrow>
   attach_namespaced h N env = env"
proof (induction N)
  case Nil
  then show ?case by (simp add: attach_Nil)
next
  case (Cons e N)
  obtain n s where e: "e = (n, s)" by (cases e)
  from Cons show ?case
    unfolding e attach_Cons by (simp add: update_triv)
qed

lemma attach_idem:
  assumes "distinct (map fst N)"
  shows "attach_namespaced h N (attach_namespaced h N env) = attach_namespaced h N env"
  by (rule attach_noop) (use attach_derived [OF assms] in blast)

text \<open>
  The derived keys contain no dot: attaching them changes neither the grouping nor the
  freedom of the chain.
\<close>

lemma filter_update_nodot:
  "CHR ''.'' \<notin> set k \<Longrightarrow> filter dotted (AList.update k v al) = filter dotted al"
  by (induction al) (auto simp: dotted_def)

lemma filter_attach:
  "\<forall>n \<in> fst ` set N. CHR ''.'' \<notin> set n \<Longrightarrow>
   filter dotted (attach_namespaced h N env) = filter dotted env"
proof (induction N arbitrary: env)
  case Nil
  then show ?case by (simp add: attach_Nil)
next
  case (Cons e N)
  obtain n s where e: "e = (n, s)" by (cases e)
  from Cons.prems have "\<forall>n \<in> fst ` set N. CHR ''.'' \<notin> set n" and "CHR ''.'' \<notin> set n"
    by (auto simp: e)
  then show ?case
    unfolding e attach_Cons by (simp add: Cons.IH filter_update_nodot)
qed

lemma plain_keys: "fst ` set (plain N) = fst ` set N"
  by (force simp: plain_def)

lemma plain_distinct: "distinct (map fst (plain N)) = distinct (map fst N)"
proof -
  have "map fst (plain N) = map fst N"
    by (induction N) (auto simp: plain_def)
  then show ?thesis by simp
qed

lemma groups_attach:
  "plain_groups (attach_namespaced h (plain (plain_groups env)) env) = plain_groups env"
proof -
  have "filter dotted (attach_namespaced h (plain (plain_groups env)) env) = filter dotted env"
    by (rule filter_attach) (use groups_keys in \<open>simp add: plain_keys\<close>)
  then show ?thesis
    unfolding plain_groups_def
    by (metis foldl_entry_filter)
qed

lemma chain_free_filter: "chain_free R env = chain_free R (filter dotted env)"
  by (induction env) (auto simp: chain_free_def dotted_def)

lemma chain_free_attach:
  "chain_free R (attach_namespaced h (plain (plain_groups env)) env) = chain_free R env"
proof -
  have "filter dotted (attach_namespaced h (plain (plain_groups env)) env) = filter dotted env"
    by (rule filter_attach) (use groups_keys in \<open>simp add: plain_keys\<close>)
  then show ?thesis
    using chain_free_filter by metis
qed

section \<open>Loading\<close>

lemma loaded_env_cases:
  "loaded_env h p env = env \<or> (\<exists>parsed. \<forall>e. loaded_env h p e = populate e parsed)"
  by (auto simp: loaded_env_def config_def Let_def split: option.splits fs_entry.splits)

lemma loaded_env_stable:
  assumes "fst ` set (loaded_env h p env) \<subseteq> fst ` set env'"
  shows "loaded_env h p env' = env'"
proof -
  have "loaded_env h p env' = env' \<or> (\<exists>parsed. \<forall>e. loaded_env h p e = populate e parsed)"
    by (rule loaded_env_cases)
  then show ?thesis
  proof
    assume "loaded_env h p env' = env'"
    then show ?thesis .
  next
    assume "\<exists>parsed. \<forall>e. loaded_env h p e = populate e parsed"
    then obtain parsed where p: "\<And>e. loaded_env h p e = populate e parsed" by blast
    have "fst ` set parsed \<subseteq> fst ` set env'"
      using assms by (simp add: p populate_keys)
    then show ?thesis
      by (simp add: p populate_noop)
  qed
qed

lemma loaded_env_distinct:
  "distinct (map fst env) \<Longrightarrow> distinct (map fst (loaded_env h p env))"
  using loaded_env_cases [of h p env] by (auto simp: populate_distinct)

lemma loaded_env_without_file:
  assumes "list_all valid_name cs" "cwd h = abs_path cs"
      and "\<not> existsSync h (abs_path (cs @ [''.env'']))"
  shows "loaded_env h None env = env"
  using assms
  by (simp add: loaded_env_def config_def path_join_abs existsSync_def)

subsection \<open>Environments that are free of the chain\<close>

text \<open>
  In a program that has just started, on a host whose working directory is an absolute
  path as \<^verbatim>\<open>process.cwd()\<close> gives it, a load whose environment (after the call of
  \<^verbatim>\<open>config\<close>) is free of the chain returns: the result is that environment with one
  derived key for every group, and the realm stays as it is.
\<close>

lemma loadEnvConfig_host_plain:
  assumes "\<not> isBrowser h" "list_all valid_name cs" "cwd h = abs_path cs"
      and "realm st = initial_realm"
      and "chain_free initial_realm (loaded_env h (nearest_env h cs) (process_env st))"
  shows "loadEnvConfig h st =
     Some (Inr (attach_namespaced h
                 (plain (plain_groups (loaded_env h (nearest_env h cs) (process_env st))))
                 (loaded_env h (nearest_env h cs) (process_env st))),
           st\<lparr>process_env :=
             attach_namespaced h
               (plain (plain_groups (loaded_env h (nearest_env h cs) (process_env st))))
               (loaded_env h (nearest_env h cs) (process_env st))\<rparr>)"
proof -
  have f: "findNearestEnvFile h (cwd h) = Some (nearest_env h cs)"
    using findNearestEnvFile_absolute [OF assms(1,2)] assms(3) by simp
  have p: "parseNamespacedSettings (realm st) (loaded_env h (nearest_env h cs) (process_env st)) =
      (Inr (plain (plain_groups (loaded_env h (nearest_env h cs) (process_env st)))), initial_realm)"
    unfolding assms(4) using assms(5) initial_entries by (rule parseNamespacedSettings_plain)
  have r: "st\<lparr>process_env := e, realm := initial_realm\<rparr> = st\<lparr>process_env := e\<rparr>" for e
    using assms(4) by simp
  have g: "globals (realm st) h = h"
    unfolding assms(4) by (rule globals_initial)
  show ?thesis
    using assms(1) by (simp add: loadEnvConfig_def g f p Let_def initial_entries r)
qed

lemma reload_fixed:
  fixes h p env
  defines "env1 \<equiv> loaded_env h p env"
  defines "env2 \<equiv> attach_namespaced h (plain (plain_groups env1)) env1"
  shows "loaded_env h p env2 = env2"
    and "plain_groups env2 = plain_groups env1"
    and "attach_namespaced h (plain (plain_groups env1)) env2 = env2"
    and "chain_free R env2 = chain_free R env1"
proof -
  have sub: "fst ` set env1 \<subseteq> fst ` set env2"
    unfolding env2_def by (simp add: attach_keys)
  then show "loaded_env h p env2 = env2"
    unfolding env1_def by (rule loaded_env_stable)
  show "plain_groups env2 = plain_groups env1"
    unfolding env2_def by (rule groups_attach)
  show "attach_namespaced h (plain (plain_groups env1)) env2 = env2"
    unfolding env2_def by (simp add: attach_idem plain_distinct groups_distinct)
  show "chain_free R env2 = chain_free R env1"
    unfolding env2_def by (rule chain_free_attach)
qed

text \<open>
  On such an environment a second load returns what the first returned and leaves the
  state as the first left it.
\<close>

lemma loadEnvConfig_idempotent_plain:
  assumes "\<not> isBrowser h" "list_all valid_name cs" "cwd h = abs_path cs"
      and "realm st = initial_realm"
      and "chain_free initial_realm (loaded_env h (nearest_env h cs) (process_env st))"
  shows "\<exists>flat st1. loadEnvConfig h st = Some (Inr flat, st1) \<and>
                    loadEnvConfig h st1 = Some (Inr flat, st1)"
proof -
  define env1 where "env1 = loaded_env h (nearest_env h cs) (process_env st)"
  define env2 where "env2 = attach_namespaced h (plain (plain_groups env1)) env1"
  define st1 where "st1 = st\<lparr>process_env := env2\<rparr>"
  have first: "loadEnvConfig h st = Some (Inr env2, st1)"
    unfolding st1_def env2_def env1_def by (rule loadEnvConfig_host_plain [OF assms])
  have l: "loaded_env h (nearest_env h cs) (process_env st1) = env2"
    unfolding st1_def using reload_fixed(1) [of h "nearest_env h cs" "process_env st"]
    by (simp add: env2_def env1_def)
  have g: "plain_groups env2 = plain_groups env1"
    unfolding env2_def env1_def by (rule reload_fixed(2))
  have a: "attach_namespaced h (plain (plain_groups env1)) env2 = env2"
    unfolding env2_def env1_def by (rule reload_fixed(3))
  have c: "chain_free initial_realm env2"
    using assms(5) unfolding env2_def env1_def by (simp add: reload_fixed(4))
  have r: "realm st1 = initial_realm"
    unfolding st1_def using assms(4) by simp
  have "loadEnvConfig h st1 =
      Some (Inr (attach_namespaced h (plain (plain_groups env2)) env2),
            st1\<lparr>process_env := attach_namespaced h (plain (plain_groups env2)) env2\<rparr>)"
    using loadEnvConfig_host_plain [OF assms(1,2,3) r] c unfolding l by simp
  then have "loadEnvConfig h st1 = Some (Inr env2, st1)"
    unfolding g a by (simp add: st1_def)
  with first show ?thesis by blast
qed

text \<open>
  On such an environment (each key once) every entry of every group is an entry of the
  returned flat mapping, at the key rejoined from namespace and sub-key.
\<close>

lemma loadEnvConfig_invariant_plain:
  assumes "\<not> isBrowser h" "list_all valid_name cs" "cwd h = abs_path cs"
      and "realm st = initial_realm"
      and "chain_free initial_realm (loaded_env h (nearest_env h cs) (process_env st))"
      and "distinct (map fst (process_env st))"
  shows "\<exists>N flat st'.
           parseNamespacedSettings (realm st) (loaded_env h (nearest_env h cs) (process_env st)) =
             (Inr (plain N), initial_realm) \<and>
           loadEnvConfig h st = Some (Inr flat, st') \<and> process_env st' = flat \<and>
           (\<forall>n inner k v. map_of N n = Some inner \<and> map_of inner k = Some v \<longrightarrow>
              map_of flat (n @ ''.'' @ k) = Some v) \<and>
           (\<forall>(n, inner) \<in> set N. rejoined_at flat n inner)"
proof -
  define env1 where "env1 = loaded_env h (nearest_env h cs) (process_env st)"
  define N where "N = plain_groups env1"
  define flat where "flat = attach_namespaced h (plain N) env1"
  have d1: "distinct (map fst env1)"
    unfolding env1_def using assms(6) by (rule loaded_env_distinct)
  have p: "parseNamespacedSettings (realm st) env1 = (Inr (plain N), initial_realm)"
    unfolding assms(4) N_def using assms(5) initial_entries
    unfolding env1_def by (rule parseNamespacedSettings_plain)
  have l: "loadEnvConfig h st = Some (Inr flat, st\<lparr>process_env := flat\<rparr>)"
    unfolding flat_def N_def env1_def by (rule loadEnvConfig_host_plain [OF assms(1-5)])
  have inv: "map_of flat (n @ ''.'' @ k) = Some v"
    if "map_of N n = Some inner" "map_of inner k = Some v" for n inner k v
  proof -
    from that have "ns_lookup N n k = Some v"
      by (simp add: ns_lookup_def)
    then have e: "map_of env1 (n @ ''.'' @ k) = Some v"
      unfolding N_def ns_lookup_groups [OF d1] by (auto split: option.splits if_splits)
    have "n @ ''.'' @ k \<notin> (\<lambda>m. ''__namespaced_'' @ m) ` fst ` set (plain N)"
    proof
      assume "n @ ''.'' @ k \<in> (\<lambda>m. ''__namespaced_'' @ m) ` fst ` set (plain N)"
      then obtain m where m: "m \<in> fst ` set N" and eq: "n @ ''.'' @ k = ''__namespaced_'' @ m"
        unfolding plain_keys by blast
      from m have "CHR ''.'' \<notin> set m"
        unfolding N_def using groups_keys by blast
      then have "CHR ''.'' \<notin> set (''__namespaced_'' @ m)" by simp
      then show False unfolding eq [symmetric] by simp
    qed
    then show ?thesis
      unfolding flat_def using e by (simp add: attach_other)
  qed
  have dN: "distinct (map fst N)"
    unfolding N_def by (rule groups_distinct)
  have r: "rejoined_at flat n inner" if "(n, inner) \<in> set N" for n inner
  proof -
    from that dN have m: "map_of N n = Some inner" by simp
    then have "distinct (map fst inner)"
      unfolding N_def by (rule inner_distinct_groups)
    then have "map_of inner k = Some v" if "(k, v) \<in> set inner" for k v
      using that by simp
    then show ?thesis
      unfolding rejoined_at_def list_all_iff using inv [OF m] by blast
  qed
  show ?thesis
  proof (intro exI conjI allI impI)
    show "parseNamespacedSettings (realm st) (loaded_env h (nearest_env h cs) (process_env st)) =
            (Inr (plain N), initial_realm)"
      using p unfolding env1_def .
    show "loadEnvConfig h st = Some (Inr flat, st\<lparr>process_env := flat\<rparr>)" by (rule l)
    show "process_env (st\<lparr>process_env := flat\<rparr>) = flat" by simp
    show "\<forall>(n, inner) \<in> set N. rejoined_at flat n inner"
      using r by blast
  next
    fix n inner k v
    assume "map_of N n = Some inner \<and> map_of inner k = Some v"
    then show "map_of flat (n @ ''.'' @ k) = Some v"
      using inv by blast
  qed
qed

text \<open>
  With no configuration file on the way from the working directory to the root, and an
  ambient environment that is free of the chain, a load returns: its result has the
  keys of the ambient environment and the derived keys, every other key keeps its
  ambient value, and every derived key holds the serialized group of its namespace.
\<close>

lemma loadEnvConfig_without_file_plain:
  assumes "\<not> isBrowser h" and "list_all valid_name cs" and "cwd h = abs_path cs"
      and "\<forall>d \<in> set (ancestors cs). \<not> existsSync h (abs_path (d @ [''.env'']))"
      and "realm st = initial_realm"
      and "chain_free initial_realm (process_env st)"
  shows "\<exists>flat. loadEnvConfig h st = Some (Inr flat, st\<lparr>process_env := flat\<rparr>) \<and>
           (\<forall>k. k \<notin> (\<lambda>n. ''__namespaced_'' @ n) ` fst ` set (plain_groups (process_env st)) \<longrightarrow>
              map_of flat k = map_of (process_env st) k) \<and>
           fst ` set flat =
             fst ` set (process_env st) \<union>
             (\<lambda>n. ''__namespaced_'' @ n) ` fst ` set (plain_groups (process_env st)) \<and>
           (\<forall>n inner. (n, inner) \<in> set (plain_groups (process_env st)) \<longrightarrow>
              map_of flat (''__namespaced_'' @ n) = Some (Some (json_stringify h inner)))"
proof -
  have none: "nearest_env h cs = None"
    using assms(4) by (rule nearest_env_None)
  have "\<not> existsSync h (abs_path (cs @ [''.env'']))"
    using assms(4) self_ancestor [of cs] by blast
  then have same: "loaded_env h None (process_env st) = process_env st"
    by (rule loaded_env_without_file [OF assms(2,3)])
  define flat where
    "flat = attach_namespaced h (plain (plain_groups (process_env st))) (process_env st)"
  have c: "chain_free initial_realm (loaded_env h (nearest_env h cs) (process_env st))"
    unfolding none same by (rule assms(6))
  have l: "loadEnvConfig h st = Some (Inr flat, st\<lparr>process_env := flat\<rparr>)"
    using loadEnvConfig_host_plain [OF assms(1,2,3,5) c] unfolding none same flat_def .
  have o: "\<forall>k. k \<notin> (\<lambda>n. ''__namespaced_'' @ n) ` fst ` set (plain_groups (process_env st)) \<longrightarrow>
      map_of flat k = map_of (process_env st) k"
    unfolding flat_def by (simp add: attach_other plain_keys)
  have k: "fst ` set flat =
      fst ` set (process_env st) \<union>
      (\<lambda>n. ''__namespaced_'' @ n) ` fst ` set (plain_groups (process_env st))"
    unfolding flat_def by (simp add: attach_keys plain_keys)
  have d: "map_of flat (''__namespaced_'' @ n) = Some (Some (json_stringify h inner))"
    if "(n, inner) \<in> set (plain_groups (process_env st))" for n inner
  proof -
    from that have "(n, Plain inner) \<in> set (plain (plain_groups (process_env st)))"
      by (force simp: plain_def)
    then show ?thesis
      unfolding flat_def
      using attach_derived [of "plain (plain_groups (process_env st))" n "Plain inner" h]
      by (simp add: plain_distinct groups_distinct)
  qed
  from l o k d show ?thesis by blast
qed

subsection \<open>The example host\<close>

text \<open>
  The load on the example host, step by step: the file found in the parent directory,
  its entries added to the environment, the two namespaces and their derived keys; and
  the second load, which changes nothing.
\<close>

lemma nearest_env_example: "nearest_env example_host [''srv'', ''app''] = Some ''/srv/.env''"
  by (simp add: nearest_env_def ancestors_def abs_path_def existsSync_def example_host_def)

lemma simple_parse_example:
  "simple_parse ''openai.key=abc;API_KEY=s3'' = [(''openai.key'', ''abc''), (''API_KEY'', ''s3'')]"
  by (simp add: simple_parse_def)

lemma loaded_env_example:
  "loaded_env example_host (Some ''/srv/.env'') (process_env example_loader) =
      [(''HOME'', Some ''/root''), (''db.url'', Some ''pg''), (''openai.key'', Some ''abc''),
       (''API_KEY'', Some ''s3'')]"
proof -
  have f: "files example_host ''/srv/.env'' = Some (File ''openai.key=abc;API_KEY=s3'')"
    and p: "dotenv_parse example_host = simple_parse"
    by (simp_all add: example_host_def)
  show ?thesis
    by (simp add: loaded_env_def config_def f p simple_parse_example populate_def obj_has_def
        example_loader_def)
qed

lemma groups_example:
  "plain_groups
      [(''HOME'', Some ''/root''), (''db.url'', Some ''pg''), (''openai.key'', Some ''abc''),
       (''API_KEY'', Some ''s3'')] =
      [(''db'', [(''url'', Some ''pg'')]), (''openai'', [(''key'', Some ''abc'')])]"
  by (simp add: plain_groups_def plain_entry.simps namespace_of_def subkey_of_def)

lemma chain_free_loaded_example:
  "chain_free initial_realm
      [(''HOME'', Some ''/root''), (''db.url'', Some ''pg''), (''openai.key'', Some ''abc''),
       (''API_KEY'', Some ''s3'')]"
  by (simp add: chain_free_def namespace_of_def subkey_of_def inherits_def obj_has_def
      initial_realm_def object_prototype_members_def)

lemma attach_example:
  "attach_namespaced example_host
     (plain [(''db'', [(''url'', Some ''pg'')]), (''openai'', [(''key'', Some ''abc'')])])
     [(''HOME'', Some ''/root''), (''db.url'', Some ''pg''), (''openai.key'', Some ''abc''),
      (''API_KEY'', Some ''s3'')] =
   [(''HOME'', Some ''/root''), (''db.url'', Some ''pg''), (''openai.key'', Some ''abc''),
    (''API_KEY'', Some ''s3''), (''__namespaced_db'', Some ''{url:pg}''),
    (''__namespaced_openai'', Some ''{key:abc}'')]"
proof -
  have j: "json_stringify example_host = simple_stringify"
    by (simp add: example_host_def)
  show ?thesis
    by (simp add: attach_namespaced_def plain_def j simple_stringify_def)
qed

lemma loadEnvConfig_example:
  "loadEnvConfig example_host example_loader =
     Some (Inr [(''HOME'', Some ''/root''), (''db.url'', Some ''pg''),
                (''openai.key'', Some ''abc''), (''API_KEY'', Some ''s3''),
                (''__namespaced_db'', Some ''{url:pg}''),
                (''__namespaced_openai'', Some ''{key:abc}'')],
           example_loader\<lparr>process_env :=
              [(''HOME'', Some ''/root''), (''db.url'', Some ''pg''), (''openai.key'', Some ''abc''),
               (''API_KEY'', Some ''s3''), (''__namespaced_db'', Some ''{url:pg}''),
               (''__namespaced_openai'', Some ''{key:abc}'')]\<rparr>)"
proof -
  have nb: "\<not> isBrowser example_host" by (simp add: isBrowser_def example_host_def)
  have c: "cwd example_host = abs_path [''srv'', ''app'']"
    by (simp add: example_host_def example_cwd)
  have r: "realm example_loader = initial_realm" by (simp add: example_loader_def)
  have f: "chain_free initial_realm
      (loaded_env example_host (nearest_env example_host [''srv'', ''app''])
         (process_env example_loader))"
    unfolding nearest_env_example loaded_env_example by (rule chain_free_loaded_example)
  show ?thesis
    unfolding loadEnvConfig_host_plain [OF nb example_cwd(1) c r f] nearest_env_example
      loaded_env_example groups_example attach_example ..
qed

subsection \<open>The host without a configuration file\<close>

lemma bare_host_facts:
  "\<not> isBrowser bare_host"
  "cwd bare_host = abs_path [''srv'', ''app'']"
  "list_all (\<lambda>d. \<not> existsSync bare_host (abs_path (d @ [''.env''])))
     (ancestors [''srv'', ''app''])"
  by (simp_all add: isBrowser_def bare_host_def example_cwd existsSync_def list_all_iff)

lemma findNearestEnvFile_bare: "findNearestEnvFile bare_host (cwd bare_host) = Some None"
proof -
  have "nearest_env bare_host [''srv'', ''app''] = None"
    by (rule nearest_env_None) (simp add: existsSync_def bare_host_def)
  then show ?thesis
    unfolding bare_host_facts(2)
    by (simp add: findNearestEnvFile_absolute [OF bare_host_facts(1) example_cwd(1)])
qed

lemma loaded_env_bare: "loaded_env bare_host None env = env"
  by (rule loaded_env_without_file [OF example_cwd(1) bare_host_facts(2)])
    (simp add: existsSync_def bare_host_def)

lemma loadEnvConfig_bare:
  assumes "\<not> inherits (realm st) ''window''"
  shows "loadEnvConfig bare_host st =
     (case parseNamespacedSettings (realm st) (process_env st) of
        (Inl err, R) \<Rightarrow> Some (Inl err, st\<lparr>realm := R\<rparr>)
      | (Inr namespacedSettings, R) \<Rightarrow>
          if entries_overwritten R then Some (Inl TypeError, st\<lparr>realm := R\<rparr>)
          else Some (Inr (attach_namespaced bare_host namespacedSettings (process_env st)),
                     st\<lparr>process_env := attach_namespaced bare_host namespacedSettings (process_env st),
                        realm := R\<rparr>))"
proof -
  have r: "st\<lparr>process_env := process_env st, realm := R\<rparr> = st\<lparr>realm := R\<rparr>" for R
    by simp
  have g: "globals (realm st) bare_host = bare_host"
    using assms by (simp add: globals_def bare_host_def)
  show ?thesis
    by (simp add: loadEnvConfig_def g bare_host_facts(1) findNearestEnvFile_bare loaded_env_bare
        Let_def r split: prod.splits sum.splits)
qed

lemma started_clean: "\<not> inherits (realm (started_with env)) ''window''"
  by (simp add: started_with_def initial_realm_clean)

text \<open>
  A load can make the module take the host for a browser: with the ambient environment
  \<^verbatim>\<open>__proto__.window=1\<close>, \<^verbatim>\<open>__proto__.document=1\<close> the first load puts both members
  on \<^verbatim>\<open>Object.prototype\<close>, and from then on \<^verbatim>\<open>isBrowser()\<close> is true: the second
  load returns the injected settings.
\<close>

lemma loadEnvConfig_browser_example:
  "\<exists>st1. loadEnvConfig bare_host
            (started_with [(''__proto__.window'', Some ''1''), (''__proto__.document'', Some ''1'')]) =
          Some (Inr [(''__proto__.window'', Some ''1''), (''__proto__.document'', Some ''1'')], st1) \<and>
        isBrowser (globals (realm st1) bare_host) \<and>
        loadEnvConfig bare_host st1 = Some (Inr [], st1)"
proof -
  define R1 where "R1 = initial_realm\<lparr>object_prototype :=
      AList.update ''document'' (Text ''1'')
        (AList.update ''window'' (Text ''1'') (object_prototype initial_realm))\<rparr>"
  define st1 where "st1 = \<lparr>environmentSettings = [],
      process_env = [(''__proto__.window'', Some ''1''), (''__proto__.document'', Some ''1'')],
      realm = R1\<rparr>"
  have p: "parseNamespacedSettings initial_realm
      [(''__proto__.window'', Some ''1''), (''__proto__.document'', Some ''1'')] = (Inr [], R1)"
    by (simp add: parseNamespacedSettings_def entries_overwritten_def initial_realm_def
        object_prototype_members_def ns_ensure_def ns_read_def text_of_def R1_def Let_def)
  have e: "\<not> entries_overwritten R1"
    by (simp add: entries_overwritten_def initial_realm_def R1_def)
  have first: "loadEnvConfig bare_host
      (started_with [(''__proto__.window'', Some ''1''), (''__proto__.document'', Some ''1'')]) =
      Some (Inr [(''__proto__.window'', Some ''1''), (''__proto__.document'', Some ''1'')], st1)"
    unfolding loadEnvConfig_bare [OF started_clean]
    by (simp add: started_with_def p e attach_namespaced_def st1_def)
  have b: "isBrowser (globals (realm st1) bare_host)"
    by (simp add: isBrowser_def globals_def bare_host_def st1_def R1_def inherits_def obj_has_def
        initial_realm_def object_prototype_members_def)
  then have second: "loadEnvConfig bare_host st1 = Some (Inr [], st1)"
    by (simp add: loadEnvConfig_def st1_def)
  from first b second show ?thesis by blast
qed

text \<open>
  C5. The claim holds of a load from an environment that is free of the chain
  (\<open>loadEnvConfig_invariant_plain\<close>), and fails when the loop takes a string from the
  chain as the inner mapping of a namespace. With the ambient environment
  \<^verbatim>\<open>__proto__.a=s\<close>, \<^verbatim>\<open>a.__proto__=v\<close> and no configuration file, the first key puts
  the member \<^verbatim>\<open>a\<close> on \<^verbatim>\<open>Object.prototype\<close>, and the second finds it as
  \<^verbatim>\<open>namespaced["a"]\<close>: the load returns, \<^verbatim>\<open>NamespacedSettings\<close> holds the string
  \<^verbatim>\<open>s\<close> at the namespace \<^verbatim>\<open>a\<close>, whose one entry, \<^verbatim>\<open>s\<close> at the key \<^verbatim>\<open>0\<close>, is
  not in the flat mapping at the key \<^verbatim>\<open>a.0\<close>, and the derived key holds a serialized
  string.
\<close>

theorem loadEnvConfig_string_namespace:
  "fst (parseNamespacedSettings initial_realm
          [(''__proto__.a'', Some ''s''), (''a.__proto__'', Some ''v'')]) =
     Inr [(''a'', Taken (Text ''s''))] \<and>
   (\<exists>st'. loadEnvConfig bare_host
            (started_with [(''__proto__.a'', Some ''s''), (''a.__proto__'', Some ''v'')]) =
          Some (Inr [(''__proto__.a'', Some ''s''), (''a.__proto__'', Some ''v''),
                     (''__namespaced_a'', Some (json_string bare_host ''s''))], st')) \<and>
   string_entries ''s'' = [(''0'', Some ''s'')] \<and>
   \<not> rejoined_at [(''__proto__.a'', Some ''s''), (''a.__proto__'', Some ''v''),
                   (''__namespaced_a'', Some (json_string bare_host ''s''))]
       ''a'' (string_entries ''s'')"
proof -
  have p: "parseNamespacedSettings initial_realm
      [(''__proto__.a'', Some ''s''), (''a.__proto__'', Some ''v'')] =
      (Inr [(''a'', Taken (Text ''s''))],
       initial_realm\<lparr>object_prototype :=
          AList.update ''a'' (Text ''s'') (object_prototype initial_realm)\<rparr>)"
    by (simp add: parseNamespacedSettings_def entries_overwritten_def initial_realm_def
        object_prototype_members_def ns_ensure_def ns_read_def text_of_def Let_def)
  have e: "\<not> entries_overwritten
      (initial_realm\<lparr>object_prototype :=
          AList.update ''a'' (Text ''s'') (object_prototype initial_realm)\<rparr>)"
    by (simp add: entries_overwritten_def initial_realm_def)
  have s: "string_entries ''s'' = [(''0'', Some ''s'')]"
    by (simp add: string_entries_def)
  show ?thesis
    unfolding loadEnvConfig_bare [OF started_clean] s
    by (simp add: started_with_def p e attach_namespaced_def rejoined_at_def)
qed

text \<open>
  C6. The claim holds of loads from an environment that is free of the chain
  (\<open>loadEnvConfig_idempotent_plain\<close>), and fails when a load has written to
  \<^verbatim>\<open>Object.prototype\<close>. With the ambient environment \<^verbatim>\<open>x.y=2\<close>, \<^verbatim>\<open>__proto__.x=1\<close>
  and no configuration file, the first load returns and leaves the member \<^verbatim>\<open>x\<close> on
  \<^verbatim>\<open>Object.prototype\<close>; the second load, from the state the first one left and with
  the same file system, finds that string as \<^verbatim>\<open>namespaced["x"]\<close> and raises a
  \<^verbatim>\<open>TypeError\<close> when it assigns to it: it returns no mapping at all.
\<close>

theorem loadEnvConfig_second_load_raises:
  "\<exists>st1. loadEnvConfig bare_host
            (started_with [(''x.y'', Some ''2''), (''__proto__.x'', Some ''1'')]) =
          Some (Inr [(''x.y'', Some ''2''), (''__proto__.x'', Some ''1''),
                     (''__namespaced_x'', Some (json_stringify bare_host [(''y'', Some ''2'')]))],
                st1) \<and>
        map_of (object_prototype (realm st1)) ''x'' = Some (Text ''1'') \<and>
        loadEnvConfig bare_host st1 = Some (Inl TypeError, st1)"
proof -
  define R1 where "R1 = initial_realm\<lparr>object_prototype :=
      AList.update ''x'' (Text ''1'') (object_prototype initial_realm)\<rparr>"
  define flat where "flat = [(''x.y'', Some ''2''), (''__proto__.x'', Some ''1''),
      (''__namespaced_x'', Some (json_stringify bare_host [(''y'', Some ''2'')]))]"
  define st1 where "st1 = \<lparr>environmentSettings = [], process_env = flat, realm = R1\<rparr>"
  have p1: "parseNamespacedSettings initial_realm
      [(''x.y'', Some ''2''), (''__proto__.x'', Some ''1'')] =
      (Inr [(''x'', Plain [(''y'', Some ''2'')])], R1)"
    by (simp add: parseNamespacedSettings_def entries_overwritten_def initial_realm_def
        object_prototype_members_def ns_ensure_def ns_read_def text_of_def R1_def Let_def)
  have e1: "\<not> entries_overwritten R1"
    by (simp add: entries_overwritten_def initial_realm_def R1_def)
  have first: "loadEnvConfig bare_host
      (started_with [(''x.y'', Some ''2''), (''__proto__.x'', Some ''1'')]) = Some (Inr flat, st1)"
    unfolding loadEnvConfig_bare [OF started_clean]
    by (simp add: started_with_def p1 e1 attach_namespaced_def flat_def st1_def)
  have x: "map_of (object_prototype R1) ''x'' = Some (Text ''1'')"
    by (simp add: R1_def initial_realm_def object_prototype_members_def)
  have p2: "parseNamespacedSettings R1 flat = (Inl TypeError, R1)"
    using e1 x
    by (simp add: parseNamespacedSettings_def flat_def ns_ensure_def ns_read_def Let_def)
  have w: "\<not> inherits (realm st1) ''window''"
    by (simp add: st1_def R1_def inherits_def obj_has_def initial_realm_def
        object_prototype_members_def)
  have second: "loadEnvConfig bare_host st1 = Some (Inl TypeError, st1)"
    unfolding loadEnvConfig_bare [OF w] by (simp add: st1_def p2)
  from first x second show ?thesis
    unfolding flat_def by (intro exI [of _ st1]) (simp add: st1_def)
qed

text \<open>
  C7. The claim holds of an ambient environment that is free of the chain
  (\<open>loadEnvConfig_without_file_plain\<close>), and fails when a namespace names a member of
  \<^verbatim>\<open>Object.prototype\<close>. On a host with no configuration file anywhere between the
  working directory and the root, with the ambient environment
  \<^verbatim>\<open>constructor.name=v\<close>, the loop takes the function \<^verbatim>\<open>Object\<close> as the inner
  mapping of the namespace \<^verbatim>\<open>constructor\<close> and assigns to its read-only property
  \<^verbatim>\<open>name\<close>: the load raises a \<^verbatim>\<open>TypeError\<close> and returns no mapping.
\<close>

theorem loadEnvConfig_without_file_raises:
  "\<not> isBrowser bare_host \<and> cwd bare_host = abs_path [''srv'', ''app''] \<and>
   list_all (\<lambda>d. \<not> existsSync bare_host (abs_path (d @ [''.env''])))
     (ancestors [''srv'', ''app'']) \<and>
   loadEnvConfig bare_host (started_with [(''constructor.name'', Some ''v'')]) =
     Some (Inl TypeError, started_with [(''constructor.name'', Some ''v'')])"
proof -
  have p: "parseNamespacedSettings initial_realm [(''constructor.name'', Some ''v'')] =
      (Inl TypeError, initial_realm)"
    by (simp add: parseNamespacedSettings_def entries_overwritten_def initial_realm_def
        object_prototype_members_def ns_ensure_def ns_read_def read_only_def Let_def)
  have "loadEnvConfig bare_host (started_with [(''constructor.name'', Some ''v'')]) =
      Some (Inl TypeError, started_with [(''constructor.name'', Some ''v'')])"
    unfolding loadEnvConfig_bare [OF started_clean] by (simp add: started_with_def p)
  then show ?thesis
    using bare_host_facts by simp
qed

subsection \<open>The browser\<close>

text \<open>
  C8. In a browser, a load after \<^verbatim>\<open>configureSettings(s)\<close> returns the entries of
  \<open>s\<close>, whatever the file system and the working directory are: nothing is looked up.
\<close>

theorem configureSettings_then_load:
  assumes "isBrowser h"
  shows "loadEnvConfig h (configureSettings s st) = Some (Inr s, configureSettings s st) \<and>
         loadEnvConfig (h\<lparr>cwd := d, files := f\<rparr>) (configureSettings s st) =
           loadEnvConfig h (configureSettings s st)"
proof -
  have "isBrowser (globals R h)" and "isBrowser (globals R (h\<lparr>cwd := d, files := f\<rparr>))" for R
    using assms by (simp_all add: isBrowser_def globals_def split: option.splits)
  then show ?thesis
    by (simp add: loadEnvConfig_def configureSettings_def)
qed

theorem configureSettings_then_load_witness:
  "isBrowser browser_host \<and>
   loadEnvConfig browser_host (configureSettings [(''OPENAI_API_KEY'', Some ''sk''), (''UNSET'', None)]
       example_loader) =
     Some (Inr [(''OPENAI_API_KEY'', Some ''sk''), (''UNSET'', None)],
           configureSettings [(''OPENAI_API_KEY'', Some ''sk''), (''UNSET'', None)] example_loader)"
proof -
  have a: "isBrowser browser_host" by (simp add: isBrowser_def browser_host_def)
  from a configureSettings_then_load [OF a] show ?thesis by simp
qed

end
